theory Spec2Isabelle
  imports Complex_Main "HOL-Library.Sublist"
begin

section \<open>Dominant-colour extraction engine (src/lib/color-extractor.ts)\<close>

text \<open>
  The engine is embedded function by function.  JavaScript numbers that hold pixel
  coordinates and pixel counts are natural numbers, colour components, the requested
  number of colours and the cell size are integers, and every other number
  (percentages, weights, LAB components, distances) is a real: the arithmetic of the
  model is exact, the rounding of IEEE doubles is not part of it.  The properties
  below are therefore those that do not hinge on a rounding error: properties of the
  grid, of the control flow (guards, caps, what is returned for which parameters), of
  the formula by which the weights are accumulated, and values at inputs where every
  intermediate result is exactly representable.  Nothing is stated about the exact
  value of a sum of normalised frequencies.
\<close>

subsection \<open>Grid Partitioner: \<open>calculateGridSections\<close>\<close>

record GridSection =
  startX :: nat
  startY :: nat
  endX :: nat
  endY :: nat

text \<open>\<open>sections.push(s)\<close> appends at the end of the array.\<close>

definition push :: "'a list \<Rightarrow> 'a \<Rightarrow> 'a list" where
  "push xs x = xs @ [x]"

text \<open>
  The image dimensions are natural numbers; the cell size is whatever integer the
  caller passes.  \<open>Math.floor(width / gridSize)\<close> is the floor division of integers, and
  \<open>width % gridSize\<close> is the remainder of JavaScript, which has the sign of the
  dividend.  Both are for \<open>gridSize \<noteq> 0\<close>; what happens with \<open>gridSize = 0\<close> is written
  into the caller, \<open>extractColorsWeightedGrid\<close>.
\<close>

definition jsRemainder :: "int \<Rightarrow> int \<Rightarrow> int" where
  "jsRemainder a b = sgn a * (\<bar>a\<bar> mod \<bar>b\<bar>)"

text \<open>
  The object literal \<open>{startX, startY, endX, endY}\<close>.  Every coordinate that is pushed
  is non-negative: it is the width, the height, or a product of an index or a floor
  quotient with the cell size, whose factors have the same sign.
\<close>

definition gridSection :: "int \<Rightarrow> int \<Rightarrow> int \<Rightarrow> int \<Rightarrow> GridSection" where
  "gridSection sx sy ex ey = \<lparr>startX = nat sx, startY = nat sy, endX = nat ex, endY = nat ey\<rparr>"

text \<open>
  The two nested \<open>for\<close> loops and the bottom-edge loop count from 0 up to a bound that
  is fixed before the loop starts, so each is a \<open>fold\<close> over that range (empty when the
  bound is not positive) with the array of sections as the state.
\<close>

definition calculateGridSections :: "nat \<Rightarrow> nat \<Rightarrow> int \<Rightarrow> GridSection list" where
  "calculateGridSections width height gridSize =
    (let fullGridCols = int width div gridSize;
         fullGridRows = int height div gridSize;
         remainderWidth = jsRemainder (int width) gridSize;
         remainderHeight = jsRemainder (int height) gridSize;
         afterRows =
           fold (\<lambda>row sections.
                  let withFull =
                        fold (\<lambda>col secs.
                               push secs (gridSection (int col * gridSize) (int row * gridSize)
                                            ((int col + 1) * gridSize) ((int row + 1) * gridSize)))
                             [0..<nat fullGridCols] sections
                  in if remainderWidth > 0
                     then push withFull (gridSection (fullGridCols * gridSize) (int row * gridSize)
                                           (int width) ((int row + 1) * gridSize))
                     else withFull)
                [0..<nat fullGridRows] []
     in if remainderHeight > 0
        then (let withBottom =
                    fold (\<lambda>col secs.
                           push secs (gridSection (int col * gridSize) (fullGridRows * gridSize)
                                        ((int col + 1) * gridSize) (int height)))
                         [0..<nat fullGridCols] afterRows
              in if remainderWidth > 0
                 then push withBottom (gridSection (fullGridCols * gridSize) (fullGridRows * gridSize)
                                         (int width) (int height))
                 else withBottom)
        else afterRows)"

text \<open>A pixel \<open>(x, y)\<close> lies in a section when it is inside its half-open rectangle.\<close>

definition inSection :: "GridSection \<Rightarrow> nat \<Rightarrow> nat \<Rightarrow> bool" where
  "inSection s x y \<longleftrightarrow> startX s \<le> x \<and> x < endX s \<and> startY s \<le> y \<and> y < endY s"


subsection \<open>Data model\<close>

text \<open>
  The interfaces \<open>RGB\<close> and \<open>LAB\<close> both have a field \<open>b\<close>; the fields carry the
  name of their interface as a prefix here.  Components read from the pixel buffer and
  components produced by \<open>Math.round\<close> are integers.
\<close>

record RGB =
  rgb_r :: int
  rgb_g :: int
  rgb_b :: int

record LAB =
  lab_l :: real
  lab_a :: real
  lab_b :: real

record ColorResult =
  color :: string
  rgb :: RGB
  lab :: LAB
  frequency :: real
  clusterSize :: real

text \<open>
  \<open>ImageData\<close>: a \<open>Uint8ClampedArray\<close> of RGBA bytes in row-major order, four per
  pixel.  The canvas always delivers \<open>4 * width * height\<close> bytes, so the reads of
  \<open>countPixelsByColor\<close> inside the image are in range.
\<close>

record ImageData =
  data :: "nat list"
  width :: nat
  height :: nat

definition wellFormed :: "ImageData \<Rightarrow> bool" where
  "wellFormed img \<longleftrightarrow> length (data img) = 4 * width img * height img \<and> list_all (\<lambda>v. v < 256) (data img)"

subsection \<open>\<open>rgbToHex\<close>\<close>

definition hexDigit :: "nat \<Rightarrow> char" where
  "hexDigit d = ''0123456789abcdef'' ! d"

text \<open>
  \<open>Math.max(0, Math.min(255, Math.round(n))).toString(16).padStart(2, '0')\<close>; on an
  integer \<open>Math.round\<close> is the identity.
\<close>

definition toHex :: "int \<Rightarrow> string" where
  "toHex n = (let v = nat (max 0 (min 255 n)) in [hexDigit (v div 16), hexDigit (v mod 16)])"

definition rgbToHex :: "RGB \<Rightarrow> string" where
  "rgbToHex c = CHR ''#'' # toHex (rgb_r c) @ toHex (rgb_g c) @ toHex (rgb_b c)"

subsection \<open>Cell Histogram Builder: \<open>countPixelsByColor\<close>\<close>

text \<open>
  The \<open>Map\<close> from hex key to \<open>{rgb, count}\<close> is an association list in insertion
  order, the order in which a JavaScript \<open>Map\<close> is iterated.
\<close>

type_synonym ColorCounts = "(string \<times> RGB \<times> nat) list"

text \<open>\<open>if (colorCounts.has(k)) colorCounts.get(k).count++ else colorCounts.set(k, {rgb, count: 1})\<close>\<close>

fun countColor :: "string \<Rightarrow> RGB \<Rightarrow> ColorCounts \<Rightarrow> ColorCounts" where
  "countColor k c [] = [(k, c, 1)]"
| "countColor k c ((k', c', n) # rest) =
     (if k' = k then (k', c', n + 1) # rest else (k', c', n) # countColor k c rest)"

text \<open>The body of the inner loop: one pixel, skipped when its alpha byte is below 128.\<close>

definition countPixel :: "ImageData \<Rightarrow> nat \<Rightarrow> nat \<Rightarrow> ColorCounts \<Rightarrow> ColorCounts" where
  "countPixel imageData y x colorCounts =
    (let idx = (y * width imageData + x) * 4;
         alpha = data imageData ! (idx + 3)
     in if alpha < 128 then colorCounts
        else (let c = \<lparr>rgb_r = int (data imageData ! idx),
                       rgb_g = int (data imageData ! (idx + 1)),
                       rgb_b = int (data imageData ! (idx + 2))\<rparr>;
                  colorHex = rgbToHex c
              in countColor colorHex c colorCounts))"

text \<open>The arguments are \<open>startX, startY, endX, endY\<close> of the source.\<close>

definition countPixelsByColor :: "ImageData \<Rightarrow> nat \<Rightarrow> nat \<Rightarrow> nat \<Rightarrow> nat \<Rightarrow> ColorCounts" where
  "countPixelsByColor imageData x0 y0 x1 y1 =
     fold (\<lambda>y counts. fold (\<lambda>x counts'. countPixel imageData y x counts') [x0..<x1] counts)
          [y0..<y1] []"

subsection \<open>Color Space Converter: \<open>rgbToLab\<close>\<close>

text \<open>
  \<open>Math.pow\<close> is applied to positive arguments only (each call is guarded by a
  comparison with a positive constant), where it is \<open>powr\<close>.
\<close>

definition gammaCorrect :: "real \<Rightarrow> real" where
  "gammaCorrect v = (if v > 0.04045 then ((v + 0.055) / 1.055) powr 2.4 else v / 12.92)"

definition labTransform :: "real \<Rightarrow> real" where
  "labTransform t = (if t > 0.008856 then t powr (1 / 3) else 7.787 * t + 16 / 116)"

definition rgbToLab :: "RGB \<Rightarrow> LAB" where
  "rgbToLab c =
    (let r = gammaCorrect (real_of_int (rgb_r c) / 255);
         g = gammaCorrect (real_of_int (rgb_g c) / 255);
         b = gammaCorrect (real_of_int (rgb_b c) / 255);
         x = (r * 0.4124564 + g * 0.3575761 + b * 0.1804375) / 0.95047;
         y = (r * 0.2126729 + g * 0.7151522 + b * 0.0721750) / 1.00000;
         z = (r * 0.0193339 + g * 0.1191920 + b * 0.9503041) / 1.08883;
         fx = labTransform x;
         fy = labTransform y;
         fz = labTransform z
     in \<lparr>lab_l = 116 * fy - 16, lab_a = 500 * (fx - fy), lab_b = 200 * (fy - fz)\<rparr>)"

subsection \<open>Perceptual Distance: \<open>labDistanceCIE94\<close>\<close>

text \<open>
  Over the reals the radicand of \<open>dh\<close> is never negative.  In double arithmetic it
  can round below zero when the two chroma vectors are nearly parallel; the source
  has no \<open>Math.max(0, ...)\<close>, so \<open>Math.sqrt\<close> then gives \<open>NaN\<close> and the comparison
  of the merger, \<open>distance < mergeThreshold\<close>, is false.  The model does not show
  this.  The distances that are evaluated below are those of LAB values for which the
  double computation is exact: values on the lightness axis, and \<open>(0, 3, 4)\<close> against
  \<open>(0, 0, 0)\<close>.
\<close>

definition labDistanceCIE94 :: "LAB \<Rightarrow> LAB \<Rightarrow> real" where
  "labDistanceCIE94 lab1 lab2 =
    (let dl = lab_l lab1 - lab_l lab2;
         da = lab_a lab1 - lab_a lab2;
         db = lab_b lab1 - lab_b lab2;
         c1 = sqrt (lab_a lab1 * lab_a lab1 + lab_b lab1 * lab_b lab1);
         c2 = sqrt (lab_a lab2 * lab_a lab2 + lab_b lab2 * lab_b lab2);
         dc = c1 - c2;
         dh = sqrt (da * da + db * db - dc * dc);
         sl = 1; kc = 1; kh = 1; k1 = 0.045; k2 = 0.015;
         sc = 1 + k1 * c1;
         sh = 1 + k2 * c1
     in sqrt ((dl / sl)\<^sup>2 + (dc / (kc * sc))\<^sup>2 + (dh / (kh * sh))\<^sup>2))"

subsection \<open>Global Weight Aggregator: the first half of \<open>extractColorsWeightedGrid\<close>\<close>

type_synonym ColorWeights = "(string \<times> RGB \<times> real) list"

text \<open>
  \<open>if (globalColorWeights.has(k)) globalColorWeights.get(k).weightedFrequency += w
  else globalColorWeights.set(k, {rgb, weightedFrequency: w})\<close>
\<close>

fun addWeight :: "string \<Rightarrow> RGB \<Rightarrow> real \<Rightarrow> ColorWeights \<Rightarrow> ColorWeights" where
  "addWeight k c w [] = [(k, c, w)]"
| "addWeight k c w ((k', c', w') # rest) =
     (if k' = k then (k', c', w' + w) # rest else (k', c', w') # addWeight k c w rest)"

definition sectionArea :: "GridSection \<Rightarrow> real" where
  "sectionArea s = (real (endX s) - real (startX s)) * (real (endY s) - real (startY s))"

text \<open>
  The body of the loop over the sections (lines 123 to 164): the histogram of the
  section, then one weighted contribution per colour of the histogram.
\<close>

definition accumulateSection :: "ImageData \<Rightarrow> real \<Rightarrow> GridSection \<Rightarrow> ColorWeights \<Rightarrow> ColorWeights" where
  "accumulateSection imageData standardArea s globalColorWeights =
    (let colorCounts = countPixelsByColor imageData (startX s) (startY s) (endX s) (endY s);
         areaWeight = sectionArea s / standardArea;
         totalPixelsInSection = sectionArea s
     in fold (\<lambda>(colorHex, c, count) weights.
               (let localPercentage = (real count / totalPixelsInSection) * 100;
                    weightedPercentage = localPercentage * areaWeight
                in addWeight colorHex c weightedPercentage weights))
             colorCounts globalColorWeights)"

definition globalColorWeights :: "ImageData \<Rightarrow> int \<Rightarrow> ColorWeights" where
  "globalColorWeights imageData standardGridSize =
    (let standardArea = real_of_int standardGridSize * real_of_int standardGridSize;
         gridSections = calculateGridSections (width imageData) (height imageData) standardGridSize
     in fold (accumulateSection imageData standardArea) gridSections [])"

text \<open>First pass (lines 171 to 175).\<close>

definition totalWeightedFrequency :: "ColorWeights \<Rightarrow> real" where
  "totalWeightedFrequency weights =
     fold (\<lambda>(colorHex, c, w) total. if w \<ge> 0.1 then total + w else total) weights 0"

text \<open>\<open>Math.round(x)\<close> rounds halves upwards.\<close>

definition jsRound :: "real \<Rightarrow> int" where
  "jsRound x = \<lfloor>x + 1 / 2\<rfloor>"

text \<open>Second pass (lines 178 to 191).\<close>

definition normalizedResults :: "ColorWeights \<Rightarrow> ColorResult list" where
  "normalizedResults weights =
    (let total = totalWeightedFrequency weights
     in fold (\<lambda>(colorHex, c, w) results.
               if w \<ge> 0.1
               then push results \<lparr>color = colorHex, rgb = c, lab = rgbToLab c,
                                   frequency = (w / total) * 100,
                                   clusterSize = real_of_int (jsRound (w * 10))\<rparr>
               else results)
             weights [])"

text \<open>
  \<open>results.sort((a, b) => b.frequency - a.frequency)\<close>: a stable sort, descending by
  frequency.
\<close>

definition sortByFrequency :: "ColorResult list \<Rightarrow> ColorResult list" where
  "sortByFrequency results = sort_key (\<lambda>c. - frequency c) results"


subsection \<open>Conservative Merger: \<open>mergeSimilarColorsConservative\<close>\<close>

text \<open>The colour categories of the source (lines 222 to 226 and 534 to 538).\<close>

definition isRed :: "RGB \<Rightarrow> bool" where
  "isRed c \<longleftrightarrow> rgb_r c > 180 \<and> rgb_g c < 100 \<and> rgb_b c < 100"


text \<open>
  The mutable state of the scan over the later colours: the set \<open>used\<close> and the four
  running totals.
\<close>

record MergeState =
  used :: "nat set"
  totalFrequency :: real
  totalR :: real
  totalG :: real
  totalB :: real

text \<open>The body of the inner loop, for the index \<open>j\<close>.\<close>

definition mergeCompare :: "ColorResult list \<Rightarrow> ColorResult \<Rightarrow> real \<Rightarrow> nat \<Rightarrow> MergeState \<Rightarrow> MergeState" where
  "mergeCompare colors baseColor mergeThreshold j st =
    (if j \<in> used st then st
     else (let compareColor = colors ! j;
               distance = labDistanceCIE94 (lab baseColor) (lab compareColor)
           in if distance < mergeThreshold
              then \<lparr>used = insert j (used st),
                    totalFrequency = totalFrequency st + frequency compareColor,
                    totalR = totalR st + real_of_int (rgb_r (rgb compareColor)) * frequency compareColor,
                    totalG = totalG st + real_of_int (rgb_g (rgb compareColor)) * frequency compareColor,
                    totalB = totalB st + real_of_int (rgb_b (rgb compareColor)) * frequency compareColor\<rparr>
              else st))"

text \<open>
  ``Calculate averaged color'' and the entry pushed to \<open>merged\<close> (lines 494 to 506).
  In the pipeline every frequency is positive, so the division is by a positive total.
  With a total of zero JavaScript computes \<open>0 / 0 = NaN\<close> and the key \<open>#NaNNaNNaN\<close>,
  which the integer components of the model cannot hold; no property below is about
  the colour of an entry whose total is zero.
\<close>

definition averagedEntry :: "real \<Rightarrow> real \<Rightarrow> real \<Rightarrow> real \<Rightarrow> ColorResult" where
  "averagedEntry totFrequency totR totG totB =
    (let avgRgb = \<lparr>rgb_r = jsRound (totR / totFrequency),
                    rgb_g = jsRound (totG / totFrequency),
                    rgb_b = jsRound (totB / totFrequency)\<rparr>
     in \<lparr>color = rgbToHex avgRgb, rgb = avgRgb, lab = rgbToLab avgRgb,
         frequency = totFrequency, clusterSize = totFrequency\<rparr>)"

text \<open>
  The outer loop \<open>for (i = 0; i < colors.length && merged.length < maxColors; i++)\<close>,
  with the index \<open>i\<close>, the set \<open>used\<close> and the array \<open>merged\<close> as its state.
\<close>

function mergeLoop :: "ColorResult list \<Rightarrow> int \<Rightarrow> nat \<Rightarrow> nat set \<Rightarrow> ColorResult list \<Rightarrow> ColorResult list" where
  "mergeLoop colors maxColors i usedSet merged =
    (if i < length colors \<and> int (length merged) < maxColors
     then (if i \<in> usedSet then mergeLoop colors maxColors (i + 1) usedSet merged
           else (let baseColor = colors ! i;
                     isRedColor = isRed (rgb baseColor);
                     mergeThreshold = (if isRedColor then 1.5 else 3);
                     st = fold (mergeCompare colors baseColor mergeThreshold) [i + 1..<length colors]
                            \<lparr>used = usedSet,
                             totalFrequency = frequency baseColor,
                             totalR = real_of_int (rgb_r (rgb baseColor)) * frequency baseColor,
                             totalG = real_of_int (rgb_g (rgb baseColor)) * frequency baseColor,
                             totalB = real_of_int (rgb_b (rgb baseColor)) * frequency baseColor\<rparr>
                 in mergeLoop colors maxColors (i + 1) (insert i (used st))
                      (push merged (averagedEntry (totalFrequency st) (totalR st) (totalG st) (totalB st)))))
     else merged)"
  by pat_completeness auto
termination
  by (relation "measure (\<lambda>(colors, maxColors, i, usedSet, merged). length colors - i)") auto

definition mergeSimilarColorsConservative :: "ColorResult list \<Rightarrow> int \<Rightarrow> ColorResult list" where
  "mergeSimilarColorsConservative colors maxColors =
    (if int (length colors) \<le> maxColors then colors
     else mergeLoop colors maxColors 0 {} [])"

subsection \<open>Significance Selector: \<open>selectDiverseColors\<close>\<close>

text \<open>\<open>xs.slice(0, e)\<close>: a negative \<open>e\<close> counts from the end of the array.\<close>

definition sliceTo :: "'a list \<Rightarrow> int \<Rightarrow> 'a list" where
  "sliceTo xs e = (if e < 0 then take (nat (int (length xs) + e)) xs else take (nat e) xs)"

text \<open>
  The source also sorts the significant colours into categories (red, orange, purple,
  blue, gray, other), but only to log how many each has; the value returned is
  \<open>significantColors.slice(0, maxColors)\<close>.
\<close>

definition selectDiverseColors :: "ColorResult list \<Rightarrow> int \<Rightarrow> ColorResult list" where
  "selectDiverseColors colors maxColors =
    (let significantColors = filter (\<lambda>c. frequency c \<ge> 0.5) colors
     in if int (length significantColors) \<le> maxColors then significantColors
        else sliceTo significantColors maxColors)"

subsection \<open>The pipeline: \<open>extractColorsWeightedGrid\<close> and \<open>extractColors\<close>\<close>

text \<open>
  With \<open>standardGridSize = 0\<close> the call does not return when the image has a row:
  \<open>height / 0\<close> is \<open>Infinity\<close>, so the condition \<open>row < fullGridRows\<close> of the loop at
  line 287 of \<open>calculateGridSections\<close> never fails (and for a positive width the loop
  inside it never ends either).  Not returning is the value \<open>None\<close>.
\<close>

definition extractColorsWeightedGrid :: "ImageData \<Rightarrow> int \<Rightarrow> int \<Rightarrow> ColorResult list option" where
  "extractColorsWeightedGrid imageData maxColors standardGridSize =
    (if standardGridSize = 0 \<and> 0 < height imageData then None
     else (let results = sortByFrequency (normalizedResults (globalColorWeights imageData standardGridSize));
               mergedResults = mergeSimilarColorsConservative results (maxColors * 3);
               finalSelection = selectDiverseColors mergedResults maxColors
           in Some finalSelection))"

text \<open>
  \<open>extractColors\<close> throws when the canvas is missing or the image cannot be loaded, and
  its \<open>catch\<close> block replaces whatever was thrown by one error,
  \<open>new Error('Failed to extract colors using weighted grid analysis')\<close>.  The image
  loader is outside the engine: \<open>loaded\<close> is the pixel buffer it delivers, or \<open>None\<close>
  when it rejects.  With \<open>maxDimension = Infinity\<close> the image is never rescaled.  The
  result is \<open>None\<close> when the call does not return.
\<close>

datatype error = ExtractionFailed

definition extractColors :: "bool \<Rightarrow> ImageData option \<Rightarrow> int \<Rightarrow> int \<Rightarrow> (error + ColorResult list) option" where
  "extractColors canvasAvailable loaded maxColors standardGridSize =
    (if \<not> canvasAvailable then Some (Inl ExtractionFailed)
     else (case loaded of
             None \<Rightarrow> Some (Inl ExtractionFailed)
           | Some imageData \<Rightarrow>
               (case extractColorsWeightedGrid imageData maxColors standardGridSize of
                  None \<Rightarrow> None
                | Some results \<Rightarrow> Some (Inr (sortByFrequency results)))))"


subsection \<open>Notions used to state and prove the properties\<close>

text \<open>
  The same loops for a positive cell size, in natural-number arithmetic; lemma
  \<open>grid_positive\<close> shows that \<open>calculateGridSections\<close> computes it.
\<close>

definition gridOfPositiveSize :: "nat \<Rightarrow> nat \<Rightarrow> nat \<Rightarrow> GridSection list" where
  "gridOfPositiveSize W H S =
    (let fullGridCols = W div S;
         fullGridRows = H div S;
         remainderWidth = W mod S;
         remainderHeight = H mod S;
         afterRows =
           fold (\<lambda>row sections.
                  let withFull =
                        fold (\<lambda>col secs.
                               push secs \<lparr>startX = col * S, startY = row * S,
                                          endX = (col + 1) * S, endY = (row + 1) * S\<rparr>)
                             [0..<fullGridCols] sections
                  in if remainderWidth > 0
                     then push withFull \<lparr>startX = fullGridCols * S, startY = row * S,
                                          endX = W, endY = (row + 1) * S\<rparr>
                     else withFull)
                [0..<fullGridRows] []
     in if remainderHeight > 0
        then (let withBottom =
                    fold (\<lambda>col secs.
                           push secs \<lparr>startX = col * S, startY = fullGridRows * S,
                                      endX = (col + 1) * S, endY = H\<rparr>)
                         [0..<fullGridCols] afterRows
              in if remainderWidth > 0
                 then push withBottom \<lparr>startX = fullGridCols * S, startY = fullGridRows * S,
                                         endX = W, endY = H\<rparr>
                 else withBottom)
        else afterRows)"

text \<open>
  The cell in column \<open>c\<close> and row \<open>r\<close> of the grid over a \<open>W \<times> H\<close> image, clipped at
  the image border, and the number of cells along a side of length \<open>n\<close>.
\<close>

definition cell :: "nat \<Rightarrow> nat \<Rightarrow> nat \<Rightarrow> nat \<Rightarrow> nat \<Rightarrow> GridSection" where
  "cell W H S c r =
     \<lparr>startX = c * S, startY = r * S, endX = min ((c + 1) * S) W, endY = min ((r + 1) * S) H\<rparr>"

definition cellCount :: "nat \<Rightarrow> nat \<Rightarrow> nat" where
  "cellCount n S = n div S + (if n mod S > 0 then 1 else 0)"

text \<open>
  Reading the two maps: \<open>globalColorWeights.get(k).weightedFrequency\<close> and
  \<open>colorCounts.get(k).count\<close>, with 0 for a key that is not present; the sum of all
  weights of the map; and the histogram of a section.
\<close>

fun weightOf :: "string \<Rightarrow> ColorWeights \<Rightarrow> real" where
  "weightOf k [] = 0"
| "weightOf k ((k', c, w) # rest) = (if k' = k then w else weightOf k rest)"

fun countOf :: "string \<Rightarrow> ColorCounts \<Rightarrow> nat" where
  "countOf k [] = 0"
| "countOf k ((k', c, n) # rest) = (if k' = k then n else countOf k rest)"

definition totalWeight :: "ColorWeights \<Rightarrow> real" where
  "totalWeight weights = sum_list (map (\<lambda>(k, c, w). w) weights)"

definition histogramOf :: "ImageData \<Rightarrow> GridSection \<Rightarrow> ColorCounts" where
  "histogramOf imageData s = countPixelsByColor imageData (startX s) (startY s) (endX s) (endY s)"

text \<open>
  The local percentage as the specification words it: the count divided by the
  section's effective pixel count, the number of pixels that passed the alpha test,
  which is the sum of the counts of the section's histogram.
\<close>

definition effectivePixelCount :: "ColorCounts \<Rightarrow> nat" where
  "effectivePixelCount colorCounts = sum_list (map (\<lambda>(k, c, n). n) colorCounts)"

definition specLocalPercentage :: "ColorCounts \<Rightarrow> nat \<Rightarrow> real" where
  "specLocalPercentage colorCounts n = real n / real (effectivePixelCount colorCounts) * 100"

text \<open>
  The merger, list by list, as its properties are stated: \<open>mergesInto baseColor c\<close> is
  the test of the inner loop with the threshold chosen for the base, \<open>groupEntry\<close> is
  the entry pushed for a base and the colours merged into it, and \<open>mergeGroups\<close> takes
  the first colour that is left as the next base, removes the colours merged into it,
  and goes on with the rest while fewer than \<open>M\<close> entries exist.  Lemma
  \<open>mergeLoop_groups\<close> shows that the loop of the source computes \<open>mergeGroups\<close>.
\<close>

definition mergesInto :: "ColorResult \<Rightarrow> ColorResult \<Rightarrow> bool" where
  "mergesInto baseColor compareColor \<longleftrightarrow>
     labDistanceCIE94 (lab baseColor) (lab compareColor) < (if isRed (rgb baseColor) then 1.5 else 3)"

definition groupEntry :: "ColorResult \<Rightarrow> ColorResult list \<Rightarrow> ColorResult" where
  "groupEntry baseColor merged =
     averagedEntry
       (frequency baseColor + (\<Sum>c\<leftarrow>merged. frequency c))
       (real_of_int (rgb_r (rgb baseColor)) * frequency baseColor
          + (\<Sum>c\<leftarrow>merged. real_of_int (rgb_r (rgb c)) * frequency c))
       (real_of_int (rgb_g (rgb baseColor)) * frequency baseColor
          + (\<Sum>c\<leftarrow>merged. real_of_int (rgb_g (rgb c)) * frequency c))
       (real_of_int (rgb_b (rgb baseColor)) * frequency baseColor
          + (\<Sum>c\<leftarrow>merged. real_of_int (rgb_b (rgb c)) * frequency c))"

function mergeGroups :: "int \<Rightarrow> ColorResult list \<Rightarrow> ColorResult list \<Rightarrow> ColorResult list" where
  "mergeGroups M merged [] = merged"
| "mergeGroups M merged (baseColor # rest) =
     (if int (length merged) < M
      then mergeGroups M (merged @ [groupEntry baseColor (filter (mergesInto baseColor) rest)])
             (filter (\<lambda>c. \<not> mergesInto baseColor c) rest)
      else merged)"
  by pat_completeness auto
termination
  by (relation "measure (\<lambda>(M, merged, colors). length colors)") (auto simp: less_Suc_eq_le)

text \<open>
  The colours the loop has still to look at when it is at index \<open>i\<close> with the set
  \<open>u\<close> of used indices.
\<close>

definition remaining :: "ColorResult list \<Rightarrow> nat \<Rightarrow> nat set \<Rightarrow> ColorResult list" where
  "remaining cs i u = map (nth cs) (filter (\<lambda>k. k \<notin> u) [i..<length cs])"

subsection \<open>Example inputs\<close>

text \<open>
  An entry of colour \<open>(r, g, b)\<close> with an achromatic LAB value of lightness \<open>l\<close> and
  frequency \<open>f\<close>, and an image of one opaque red pixel.
\<close>

definition entry :: "int \<Rightarrow> int \<Rightarrow> int \<Rightarrow> real \<Rightarrow> real \<Rightarrow> ColorResult" where
  "entry r g b l f =
     \<lparr>color = rgbToHex \<lparr>rgb_r = r, rgb_g = g, rgb_b = b\<rparr>,
      rgb = \<lparr>rgb_r = r, rgb_g = g, rgb_b = b\<rparr>,
      lab = \<lparr>lab_l = l, lab_a = 0, lab_b = 0\<rparr>,
      frequency = f, clusterSize = f\<rparr>"


definition onePixelImage :: ImageData where
  "onePixelImage = \<lparr>data = [255, 0, 0, 255], width = 1, height = 1\<rparr>"

text \<open>A \<open>2 \<times> 1\<close> image: an opaque red pixel and a fully transparent pixel.\<close>

definition halfTransparentImage :: ImageData where
  "halfTransparentImage = \<lparr>data = [255, 0, 0, 255, 0, 0, 0, 0], width = 2, height = 1\<rparr>"

text \<open>A \<open>6 \<times> 6\<close> image of opaque red pixels.\<close>

definition solidRedImage :: ImageData where
  "solidRedImage = \<lparr>data = concat (replicate 36 [255, 0, 0, 255]), width = 6, height = 6\<rparr>"

text \<open>A \<open>2 \<times> 1\<close> image: an opaque red pixel and an opaque blue pixel.\<close>

definition redBlueImage :: ImageData where
  "redBlueImage = \<lparr>data = [255, 0, 0, 255, 0, 0, 255, 255], width = 2, height = 1\<rparr>"

section \<open>Properties\<close>

subsection \<open>The grid is the row-major list of the clipped cells\<close>

lemma fold_append_rows: "fold (\<lambda>x acc. acc @ g x) xs acc = acc @ concat (map g xs)"
  by (induction xs arbitrary: acc) simp_all

lemma full_extent: 
  fixes c n S :: nat
  assumes "c < n div S" shows "min ((c + 1) * S) n = (c + 1) * S"
proof -
  have "c + 1 \<le> n div S" using assms by simp
  then have "(c + 1) * S \<le> (n div S) * S" by (rule mult_le_mono1)
  also have "\<dots> \<le> n" by simp
  finally show ?thesis by simp
qed

lemma edge_extent:
  fixes n S :: nat
  assumes "0 < S" shows "min ((n div S + 1) * S) n = n"
proof -
  have "n < (n div S + 1) * S" using assms
    using dividend_less_div_times[of S n] by (simp add: algebra_simps)
  then show ?thesis by simp
qed

lemma cellCount_upt:
  "[0..<cellCount n S] = [0..<n div S] @ (if n mod S > 0 then [n div S] else [])"
  by (simp add: cellCount_def)

lemma row_cells:
  fixes S W r e :: nat
  assumes "0 < S"
  shows "map (\<lambda>c. \<lparr>startX = c * S, startY = r * S, endX = (c + 1) * S, endY = e\<rparr>) [0..<W div S]
           @ (if W mod S > 0 then [\<lparr>startX = (W div S) * S, startY = r * S, endX = W, endY = e\<rparr>] else [])
         = map (\<lambda>c. \<lparr>startX = c * S, startY = r * S, endX = min ((c + 1) * S) W, endY = e\<rparr>) [0..<cellCount W S]"
proof -
  have a: "map (\<lambda>c. \<lparr>startX = c * S, startY = r * S, endX = (c + 1) * S, endY = e\<rparr>) [0..<W div S]
      = map (\<lambda>c. \<lparr>startX = c * S, startY = r * S, endX = min ((c + 1) * S) W, endY = e\<rparr>) [0..<W div S]"
    by (rule map_cong [OF refl]) (simp only: full_extent set_upt atLeastLessThan_iff)
  show ?thesis
    unfolding cellCount_upt map_append a using edge_extent [OF assms, of W] by simp
qed



lemma fold_snoc: "fold (\<lambda>x acc. acc @ [f x]) xs acc = acc @ map f xs"
  by (induction xs arbitrary: acc) simp_all

lemma row_step:
  fixes S W r e :: nat
  assumes "0 < S"
  shows "(if W mod S > 0
          then push (fold (\<lambda>col secs. push secs \<lparr>startX = col * S, startY = r * S,
                                          endX = (col + 1) * S, endY = e\<rparr>) [0..<W div S] sections)
                    \<lparr>startX = (W div S) * S, startY = r * S, endX = W, endY = e\<rparr>
          else fold (\<lambda>col secs. push secs \<lparr>startX = col * S, startY = r * S,
                                          endX = (col + 1) * S, endY = e\<rparr>) [0..<W div S] sections)
         = sections @ map (\<lambda>c. \<lparr>startX = c * S, startY = r * S, endX = min ((c + 1) * S) W, endY = e\<rparr>)
                         [0..<cellCount W S]"
  unfolding push_def fold_snoc row_cells [OF assms, of r e W, symmetric] by simp

lemma grid_as_cells:
  assumes "0 < S"
  shows "gridOfPositiveSize W H S =
           concat (map (\<lambda>r. map (\<lambda>c. cell W H S c r) [0..<cellCount W S]) [0..<cellCount H S])"
proof -
  let ?row = "\<lambda>r e. map (\<lambda>c. \<lparr>startX = c * S, startY = r * S, endX = min ((c + 1) * S) W, endY = e\<rparr>) [0..<cellCount W S]"
  have full: "concat (map (\<lambda>r. ?row r ((r + 1) * S)) [0..<H div S])
               = concat (map (\<lambda>r. map (\<lambda>c. cell W H S c r) [0..<cellCount W S]) [0..<H div S])"
  proof (intro arg_cong [where f = concat] map_cong refl)
    fix r c assume "r \<in> set [0..<H div S]"
    then have "min ((r + 1) * S) H = (r + 1) * S" by (simp only: full_extent set_upt atLeastLessThan_iff)
    then show "\<lparr>startX = c * S, startY = r * S, endX = min ((c + 1) * S) W, endY = (r + 1) * S\<rparr> = cell W H S c r"
      unfolding cell_def by simp
  qed
  have bottom: "?row (H div S) H = map (\<lambda>c. cell W H S c (H div S)) [0..<cellCount W S]"
    unfolding cell_def edge_extent [OF assms] ..
  have "gridOfPositiveSize W H S =
          concat (map (\<lambda>r. ?row r ((r + 1) * S)) [0..<H div S])
          @ (if H mod S > 0 then ?row (H div S) H else [])"
    unfolding gridOfPositiveSize_def Let_def row_step [OF assms] fold_append_rows
    by simp
  also have "\<dots> = concat (map (\<lambda>r. map (\<lambda>c. cell W H S c r) [0..<cellCount W S]) [0..<cellCount H S])"
    unfolding full bottom cellCount_upt [of H S] by simp
  finally show ?thesis .
qed


lemma concat_map_product:
  "concat (map (\<lambda>r. map (\<lambda>c. f c r) cs) rs) = map (\<lambda>(r, c). f c r) (List.product rs cs)"
  by (induction rs) (simp_all add: comp_def)

lemma cell_inj:
  assumes "0 < S"
  shows "inj (\<lambda>(r, c). cell W H S c r)"
proof (rule injI)
  fix p q :: "nat \<times> nat"
  assume eq: "(case p of (r, c) \<Rightarrow> cell W H S c r) = (case q of (r, c) \<Rightarrow> cell W H S c r)"
  obtain r c r' c' where p: "p = (r, c)" and q: "q = (r', c')" by (cases p, cases q) auto
  from eq have "startX (cell W H S c r) = startX (cell W H S c' r')"
    and "startY (cell W H S c r) = startY (cell W H S c' r')" by (simp_all add: p q)
  then have "c * S = c' * S" "r * S = r' * S" by (simp_all add: cell_def)
  with assms show "p = q" by (simp add: p q)
qed

lemma grid_distinct:
  assumes "0 < S"
  shows "distinct (gridOfPositiveSize W H S)"
  unfolding grid_as_cells [OF assms] concat_map_product
  by (simp add: distinct_map distinct_product inj_on_subset [OF cell_inj [OF assms]])

lemma grid_set:
  assumes "0 < S"
  shows "set (gridOfPositiveSize W H S)
           = (\<lambda>(r, c). cell W H S c r) ` ({0..<cellCount H S} \<times> {0..<cellCount W S})"
  unfolding grid_as_cells [OF assms] concat_map_product by simp

lemma cellCount_iff:
  fixes c n S :: nat
  assumes "0 < S"
  shows "c < cellCount n S \<longleftrightarrow> c * S < n"
proof
  assume "c < cellCount n S"
  then have "c < n div S \<or> (c = n div S \<and> 0 < n mod S)"
    by (cases "0 < n mod S") (auto simp: cellCount_def)
  then show "c * S < n"
  proof (elim disjE conjE)
    assume "c < n div S"
    then have "c + 1 \<le> n div S" by simp
    then have "(c + 1) * S \<le> (n div S) * S" by (rule mult_le_mono1)
    also have "\<dots> \<le> n" by simp
    finally show ?thesis using assms by simp
  next
    assume 2: "c = n div S" "0 < n mod S"
    have "(n div S) * S < (n div S) * S + n mod S" using 2(2) by (simp only: less_add_same_cancel1)
    also have "\<dots> = n" by simp
    finally show ?thesis unfolding 2(1) .
  qed
next
  assume lt: "c * S < n"
  show "c < cellCount n S"
  proof (rule ccontr)
    assume "\<not> c < cellCount n S"
    then have ge: "cellCount n S \<le> c" by simp
    have "n \<le> cellCount n S * S"
    proof (cases "0 < n mod S")
      case True
      have "n < (n div S + 1) * S" using dividend_less_div_times [OF assms, of n] by (simp add: algebra_simps)
      with True show ?thesis by (simp add: cellCount_def)
    next
      case False
      then have "n mod S = 0" by simp
      then have "n div S * S = n" by (simp add: mod_eq_0_iff_dvd)
      with False show ?thesis by (simp add: cellCount_def)
    qed
    also have "\<dots> \<le> c * S" using ge by (rule mult_le_mono1)
    finally show False using lt by simp
  qed
qed

lemma cell_pixel:
  fixes x y :: nat
  assumes "0 < S" and "inSection (cell W H S c r) x y"
  shows "c = x div S \<and> r = y div S \<and> x < W \<and> y < H"
proof -
  from assms(2) have x: "c * S \<le> x" "x < (c + 1) * S" "x < W"
    and y: "r * S \<le> y" "y < (r + 1) * S" "y < H"
    by (simp_all add: inSection_def cell_def)
  have "x div S = c" using x(1,2) assms(1)
    by (intro div_nat_eqI) (simp_all add: algebra_simps)
  moreover have "y div S = r" using y(1,2) assms(1)
    by (intro div_nat_eqI) (simp_all add: algebra_simps)
  ultimately show ?thesis using x(3) y(3) by simp
qed

lemma pixel_cell:
  fixes x y :: nat
  assumes "0 < S" and "x < W" and "y < H"
  shows "inSection (cell W H S (x div S) (y div S)) x y
         \<and> x div S < cellCount W S \<and> y div S < cellCount H S"
proof -
  have a: "x div S * S \<le> x" "y div S * S \<le> y" by simp_all
  have b: "x < (x div S + 1) * S" "y < (y div S + 1) * S"
    using dividend_less_div_times [OF assms(1)] by (simp_all add: algebra_simps)
  have c: "x div S * S < W" "y div S * S < H" using a assms(2,3) by linarith+
  have "inSection (cell W H S (x div S) (y div S)) x y"
    unfolding inSection_def cell_def using a b assms(2,3) by simp
  moreover have "x div S < cellCount W S" "y div S < cellCount H S"
    using c by (simp_all only: cellCount_iff [OF assms(1)])
  ultimately show ?thesis by simp
qed

lemma jsRemainder_nat: "jsRemainder (int a) (int b) = int (a mod b)"
  by (cases "a = 0") (simp_all add: jsRemainder_def zmod_int)

lemma gridSection_nat:
  "gridSection (int a) (int b) (int c) (int d) = \<lparr>startX = a, startY = b, endX = c, endY = d\<rparr>"
  by (simp add: gridSection_def)

lemma grid_positive:
  assumes "0 < S"
  shows "calculateGridSections W H S = gridOfPositiveSize W H (nat S)"
proof -
  obtain n where S: "S = int n" using assms by (metis nat_0_le less_imp_le)
  have idx: "int k * int n = int (k * n)" "(int k + 1) * int n = int ((k + 1) * n)" for k
    by (simp_all add: algebra_simps)
  have quot: "int m div int n = int (m div n)" for m by (simp add: zdiv_int)
  show ?thesis
    unfolding calculateGridSections_def gridOfPositiveSize_def S Let_def jsRemainder_nat quot idx
      gridSection_nat nat_int of_nat_0_less_iff ..
qed

subsection \<open>Grid partition\<close>

lemma grid_partition_positive:
  fixes S :: nat
  assumes "0 < S"
  shows "(\<forall>x y. x < W \<and> y < H \<longrightarrow>
            (\<exists>!i. i < length (gridOfPositiveSize W H S)
                   \<and> inSection (gridOfPositiveSize W H S ! i) x y))
       \<and> (\<forall>i j x y. i < length (gridOfPositiveSize W H S)
              \<and> j < length (gridOfPositiveSize W H S) \<and> i \<noteq> j \<longrightarrow>
            \<not> (inSection (gridOfPositiveSize W H S ! i) x y
               \<and> inSection (gridOfPositiveSize W H S ! j) x y))
       \<and> (\<forall>i x y. i < length (gridOfPositiveSize W H S)
              \<and> inSection (gridOfPositiveSize W H S ! i) x y \<longrightarrow> x < W \<and> y < H)"
proof -
  let ?secs = "gridOfPositiveSize W H S"
  have is_cell: "?secs ! i = cell W H S (x div S) (y div S) \<and> x < W \<and> y < H"
    if "i < length ?secs" and "inSection (?secs ! i) x y" for i x y
  proof -
    from that(1) have "?secs ! i \<in> set ?secs" by simp
    then obtain r c where eq: "?secs ! i = cell W H S c r"
      unfolding grid_set [OF assms] by auto
    from cell_pixel [OF assms, of W H c r x y] that(2) eq show ?thesis by simp
  qed
  have same: "i = j"
    if "i < length ?secs" "j < length ?secs"
      "inSection (?secs ! i) x y" "inSection (?secs ! j) x y" for i j x y
  proof -
    have "?secs ! i = ?secs ! j" using is_cell [OF that(1,3)] is_cell [OF that(2,4)] by simp
    with grid_distinct [OF assms, of W H] that(1,2) show ?thesis
      by (simp add: nth_eq_iff_index_eq)
  qed
  have cover: "\<exists>i. i < length ?secs \<and> inSection (?secs ! i) x y" if "x < W" "y < H" for x y
  proof -
    from pixel_cell [OF assms that]
    have "cell W H S (x div S) (y div S) \<in> set ?secs"
      unfolding grid_set [OF assms] by force
    then obtain i where "i < length ?secs" "?secs ! i = cell W H S (x div S) (y div S)"
      by (auto simp: in_set_conv_nth)
    with pixel_cell [OF assms that] show ?thesis by auto
  qed
  show ?thesis
  proof (intro conjI allI impI)
    fix x y assume "x < W \<and> y < H"
    with cover obtain i where i: "i < length ?secs \<and> inSection (?secs ! i) x y" by blast
    show "\<exists>!i. i < length ?secs \<and> inSection (?secs ! i) x y"
    proof (rule ex1I [of _ i])
      show "i < length ?secs \<and> inSection (?secs ! i) x y" by (rule i)
    next
      fix j assume "j < length ?secs \<and> inSection (?secs ! j) x y"
      with i same show "j = i" by blast
    qed
  next
    fix i j x y
    assume "i < length ?secs \<and> j < length ?secs \<and> i \<noteq> j"
    with same show "\<not> (inSection (?secs ! i) x y \<and> inSection (?secs ! j) x y)" by blast
  next
    fix i x y assume "i < length ?secs \<and> inSection (?secs ! i) x y"
    with is_cell show "x < W" by blast
  next
    fix i x y assume "i < length ?secs \<and> inSection (?secs ! i) x y"
    with is_cell show "y < H" by blast
  qed
qed

text \<open>
  Claim C2.  For every cell size \<open>S \<ge> 1\<close> (and every width and height) the sections
  produced by \<open>calculateGridSections\<close> partition the pixel grid \<open>[0,W) \<times> [0,H)\<close>: every
  pixel of the image lies in exactly one produced section, no two produced sections
  share a pixel, and every pixel of a produced section is a pixel of the image.
\<close>

theorem grid_sections_partition:
  assumes "0 < S"
  shows "(\<forall>x y. x < W \<and> y < H \<longrightarrow>
            (\<exists>!i. i < length (calculateGridSections W H S)
                   \<and> inSection (calculateGridSections W H S ! i) x y))
       \<and> (\<forall>i j x y. i < length (calculateGridSections W H S)
              \<and> j < length (calculateGridSections W H S) \<and> i \<noteq> j \<longrightarrow>
            \<not> (inSection (calculateGridSections W H S ! i) x y
               \<and> inSection (calculateGridSections W H S ! j) x y))
       \<and> (\<forall>i x y. i < length (calculateGridSections W H S)
              \<and> inSection (calculateGridSections W H S ! i) x y \<longrightarrow> x < W \<and> y < H)"
proof -
  have "0 < nat S" using assms by simp
  from grid_partition_positive [OF this, of W H] show ?thesis
    unfolding grid_positive [OF assms] .
qed

theorem grid_sections_partition_witness:
  "(0::int) < 2 \<and> (4::nat) < 5 \<and> (2::nat) < 3
   \<and> (\<exists>!i. i < length (calculateGridSections 5 3 2)
            \<and> inSection (calculateGridSections 5 3 2 ! i) 4 2)
   \<and> length (calculateGridSections 5 3 2) = 6 \<and> (2::nat) \<noteq> 5
   \<and> \<not> inSection (calculateGridSections 5 3 2 ! 2) 4 2
   \<and> inSection (calculateGridSections 5 3 2 ! 5) 4 2"
proof -
  have pos: "(0::int) < 2" by simp
  have px: "(4::nat) < 5 \<and> (2::nat) < 3" by simp
  have len: "length (calculateGridSections 5 3 2) = 6" by code_simp
  have corner: "inSection (calculateGridSections 5 3 2 ! 5) 4 2" by code_simp
  from grid_sections_partition [OF pos, of 5 3]
  have one: "\<forall>x y. x < 5 \<and> y < 3 \<longrightarrow>
            (\<exists>!i. i < length (calculateGridSections 5 3 2)
                   \<and> inSection (calculateGridSections 5 3 2 ! i) x y)"
    and apart: "\<forall>i j x y. i < length (calculateGridSections 5 3 2)
              \<and> j < length (calculateGridSections 5 3 2) \<and> i \<noteq> j \<longrightarrow>
            \<not> (inSection (calculateGridSections 5 3 2 ! i) x y
               \<and> inSection (calculateGridSections 5 3 2 ! j) x y)"
    and inside: "\<forall>i x y. i < length (calculateGridSections 5 3 2)
              \<and> inSection (calculateGridSections 5 3 2 ! i) x y \<longrightarrow> x < 5 \<and> y < 3"
    by blast+
  from one px have ex1: "\<exists>!i. i < length (calculateGridSections 5 3 2)
            \<and> inSection (calculateGridSections 5 3 2 ! i) 4 2" by blast
  have "(2::nat) < length (calculateGridSections 5 3 2) \<and> (5::nat) < length (calculateGridSections 5 3 2)
        \<and> (2::nat) \<noteq> 5" unfolding len by simp
  with apart corner have other: "\<not> inSection (calculateGridSections 5 3 2 ! 2) 4 2" by blast
  from pos px ex1 len other corner show ?thesis by simp
qed

subsection \<open>Images smaller than one cell\<close>

text \<open>
  Claim C5 as stated, with ``\<open>W < S\<close> or \<open>H < S\<close>'', fails: a \<open>1 \<times> 3\<close> image with
  cell size 2 is narrower than a cell and is cut into two sections.
\<close>

theorem narrow_image_counterexample:
  "(1::nat) < 2 \<and> calculateGridSections 1 3 2
     = [\<lparr>startX = 0, startY = 0, endX = 1, endY = 2\<rparr>, \<lparr>startX = 0, startY = 2, endX = 1, endY = 3\<rparr>]
   \<and> calculateGridSections 1 3 2 \<noteq> [\<lparr>startX = 0, startY = 0, endX = 1, endY = 3\<rparr>]"
  by code_simp

text \<open>
  Claim C5, amended.  For every image with \<open>1 \<le> W < S\<close> and \<open>1 \<le> H < S\<close> the
  partitioner emits exactly one section, the whole image \<open>[0,W) \<times> [0,H)\<close>.
\<close>

theorem small_image_single_section:
  assumes "0 < W" and "int W < S" and "0 < H" and "int H < S"
  shows "calculateGridSections W H S = [\<lparr>startX = 0, startY = 0, endX = W, endY = H\<rparr>]"
proof -
  have pos: "0 < S" using assms(2) by linarith
  have small: "W < nat S" "H < nat S" using assms(2,4) by linarith+
  show ?thesis
    unfolding grid_positive [OF pos] using assms(1,3) small
    by (simp add: gridOfPositiveSize_def push_def)
qed

theorem small_image_single_section_witness:
  "(0::nat) < 6 \<and> int 6 < 200
   \<and> calculateGridSections 6 6 200 = [\<lparr>startX = 0, startY = 0, endX = 6, endY = 6\<rparr>]"
  using small_image_single_section [of 6 200 6] by simp

subsection \<open>The CIE94 distance is not symmetric\<close>

lemma sqrt_25: "sqrt 25 = 5"
  by (rule real_sqrt_unique) simp_all

lemma cie94_chromatic_first:
  "labDistanceCIE94 \<lparr>lab_l = 0, lab_a = 3, lab_b = 4\<rparr> \<lparr>lab_l = 0, lab_a = 0, lab_b = 0\<rparr> = 200 / 49"
  by (simp add: labDistanceCIE94_def Let_def sqrt_25)

lemma cie94_chromatic_second:
  "labDistanceCIE94 \<lparr>lab_l = 0, lab_a = 0, lab_b = 0\<rparr> \<lparr>lab_l = 0, lab_a = 3, lab_b = 4\<rparr> = 5"
  by (simp add: labDistanceCIE94_def Let_def sqrt_25)

text \<open>
  Claim C9.  \<open>labDistanceCIE94\<close> is not symmetric: there are LAB colours \<open>A\<close> and \<open>B\<close>
  with \<open>labDistanceCIE94 A B \<noteq> labDistanceCIE94 B A\<close>.  The weights \<open>sc\<close> and \<open>sh\<close>
  are computed from \<open>c1\<close>, the chroma of the first operand: from \<open>(0, 3, 4)\<close> (chroma 5)
  to \<open>(0, 0, 0)\<close> the distance is \<open>5 / 1.225 = 200 / 49\<close>, in the other direction it
  is 5.
\<close>

theorem cie94_not_symmetric:
  "\<exists>A B. labDistanceCIE94 A B \<noteq> labDistanceCIE94 B A"
proof -
  have "labDistanceCIE94 \<lparr>lab_l = 0, lab_a = 3, lab_b = 4\<rparr> \<lparr>lab_l = 0, lab_a = 0, lab_b = 0\<rparr>
        \<noteq> labDistanceCIE94 \<lparr>lab_l = 0, lab_a = 0, lab_b = 0\<rparr> \<lparr>lab_l = 0, lab_a = 3, lab_b = 4\<rparr>"
    unfolding cie94_chromatic_first cie94_chromatic_second by simp
  then show ?thesis by blast
qed

subsection \<open>Conservative Merger: the cap and idempotence\<close>

declare mergeLoop.simps [simp del]

lemma mergeLoop_stop:
  "\<not> (i < length cs \<and> int (length merged) < M) \<Longrightarrow> mergeLoop cs M i u merged = merged"
  by (subst mergeLoop.simps) (simp only: if_False)

lemma mergeLoop_skip:
  "i < length cs \<Longrightarrow> int (length merged) < M \<Longrightarrow> i \<in> u \<Longrightarrow>
     mergeLoop cs M i u merged = mergeLoop cs M (i + 1) u merged"
  by (subst mergeLoop.simps) simp

lemma mergeLoop_base:
  "i < length cs \<Longrightarrow> int (length merged) < M \<Longrightarrow> i \<notin> u \<Longrightarrow>
     mergeLoop cs M i u merged =
       (let baseColor = cs ! i;
            mergeThreshold = (if isRed (rgb baseColor) then 1.5 else 3);
            st = fold (mergeCompare cs baseColor mergeThreshold) [i + 1..<length cs]
                            \<lparr>used = u,
                             totalFrequency = frequency baseColor,
                             totalR = real_of_int (rgb_r (rgb baseColor)) * frequency baseColor,
                             totalG = real_of_int (rgb_g (rgb baseColor)) * frequency baseColor,
                             totalB = real_of_int (rgb_b (rgb baseColor)) * frequency baseColor\<rparr>
        in mergeLoop cs M (i + 1) (insert i (used st))
              (push merged (averagedEntry (totalFrequency st) (totalR st) (totalG st) (totalB st))))"
  by (subst mergeLoop.simps) (simp add: Let_def)

lemma mergeLoop_length:
  "int (length merged) \<le> max M 0 \<Longrightarrow> int (length (mergeLoop cs M i u merged)) \<le> max M 0"
proof (induction cs M i u merged rule: mergeLoop.induct)
  case (1 colors maxColors i usedSet merged)
  show ?case
  proof (cases "i < length colors \<and> int (length merged) < maxColors")
    case False
    then have "mergeLoop colors maxColors i usedSet merged = merged" by (rule mergeLoop_stop)
    with 1(3) show ?thesis by simp
  next
    case True
    show ?thesis
    proof (cases "i \<in> usedSet")
      case u: True
      with True 1(1) 1(3) show ?thesis by (simp add: mergeLoop_skip)
    next
      case u: False
      have "int (length (push merged e)) \<le> max maxColors 0" for e
        using True by (simp add: push_def)
      with True u 1(2) show ?thesis
        by (simp add: mergeLoop_base Let_def)
    qed
  qed
qed

text \<open>
  Claim C7.  The merger is idempotent: applied to its own output with the same cap it
  returns that output unchanged.  Its output never has more than \<open>M\<close> entries, and a
  list of at most \<open>M\<close> entries is returned as it is.
\<close>

theorem merge_idempotent:
  "mergeSimilarColorsConservative (mergeSimilarColorsConservative cs M) M
     = mergeSimilarColorsConservative cs M"
proof (cases "int (length cs) \<le> M")
  case True
  then show ?thesis by (simp add: mergeSimilarColorsConservative_def)
next
  case False
  let ?out = "mergeLoop cs M 0 {} []"
  have len: "int (length ?out) \<le> max M 0" by (rule mergeLoop_length) simp
  have out: "mergeSimilarColorsConservative cs M = ?out"
    using False by (simp add: mergeSimilarColorsConservative_def)
  show ?thesis
  proof (cases "0 \<le> M")
    case True
    with len have "int (length ?out) \<le> M" by simp
    then show ?thesis unfolding out by (simp add: mergeSimilarColorsConservative_def)
  next
    case neg: False
    with len have "?out = []" by simp
    then show ?thesis unfolding out
      by (simp add: mergeSimilarColorsConservative_def mergeLoop_stop)
  qed
qed

subsection \<open>No parameter validation\<close>

lemma merge_nonpositive_cap:
  assumes "M \<le> 0"
  shows "mergeSimilarColorsConservative cs M = []"
proof (cases "int (length cs) \<le> M")
  case True
  with assms have "length cs = 0" by linarith
  with True show ?thesis by (simp add: mergeSimilarColorsConservative_def)
next
  case False
  have "mergeLoop cs M 0 {} [] = []" using assms by (intro mergeLoop_stop) simp
  with False show ?thesis by (simp add: mergeSimilarColorsConservative_def)
qed

lemma select_nil: "selectDiverseColors [] m = []"
  by (simp add: selectDiverseColors_def sliceTo_def)

lemma extract_nonpositive_maxColors:
  assumes "maxColors < 1" and "\<not> (standardGridSize = 0 \<and> 0 < height imageData)"
  shows "extractColors True (Some imageData) maxColors standardGridSize = Some (Inr [])"
proof -
  have "maxColors * 3 \<le> 0" using assms(1) by simp
  then show ?thesis using assms(2)
    by (simp add: extractColors_def extractColorsWeightedGrid_def Let_def
        merge_nonpositive_cap select_nil sortByFrequency_def)
qed

text \<open>
  A negative cell size: the floor quotients are not positive, so no loop body of
  \<open>calculateGridSections\<close> runs, and the only section that can be pushed is the corner
  section, whose \<open>startX\<close> is not below its \<open>endX\<close>; no pixel is visited.
\<close>

lemma grid_negative:
  assumes "S < 0"
  shows "calculateGridSections W H S =
           (if 0 < jsRemainder (int H) S \<and> 0 < jsRemainder (int W) S
            then [gridSection (int W div S * S) (int H div S * S) (int W) (int H)] else [])"
proof -
  have "int W div S \<le> 0" "int H div S \<le> 0"
    using assms by (simp_all add: div_nonneg_neg_le0)
  then have "nat (int W div S) = 0" "nat (int H div S) = 0" by simp_all
  then show ?thesis by (simp add: calculateGridSections_def Let_def push_def)
qed

lemma corner_negative:
  assumes "S < 0"
  shows "endX (gridSection (int W div S * S) sy (int W) ey)
           \<le> startX (gridSection (int W div S * S) sy (int W) ey)"
proof -
  have "int W mod S \<le> 0" using assms by (rule neg_mod_sign)
  moreover have "int W div S * S + int W mod S = int W" by simp
  ultimately have "int W \<le> int W div S * S" by linarith
  then show ?thesis by (simp add: gridSection_def)
qed

lemma fold_rows_empty: "fold (\<lambda>y counts. counts) ys (acc :: ColorCounts) = acc"
  by (induction ys) simp_all

lemma histogram_empty: "x1 \<le> x0 \<Longrightarrow> countPixelsByColor img x0 y0 x1 y1 = []"
  by (simp add: countPixelsByColor_def fold_rows_empty)

lemma weights_negative:
  assumes "S < 0"
  shows "globalColorWeights img S = []"
proof -
  have "accumulateSection img A
          (gridSection (int (width img) div S * S) sy (int (width img)) ey) [] = []" for A sy ey
    using corner_negative [OF assms, of "width img" sy ey]
    by (simp add: accumulateSection_def Let_def histogram_empty)
  then show ?thesis
    by (simp add: globalColorWeights_def Let_def grid_negative [OF assms])
qed

lemma extract_negative_size:
  assumes "standardGridSize < 0"
  shows "extractColors True (Some imageData) maxColors standardGridSize = Some (Inr [])"
proof -
  have "normalizedResults (globalColorWeights imageData standardGridSize) = []"
    unfolding weights_negative [OF assms] by (simp add: normalizedResults_def)
  moreover have "mergeSimilarColorsConservative [] (maxColors * 3) = []"
    by (simp add: mergeSimilarColorsConservative_def mergeLoop_stop)
  ultimately show ?thesis using assms
    by (simp add: extractColors_def extractColorsWeightedGrid_def Let_def
        select_nil sortByFrequency_def)
qed

lemma extract_zero_size:
  assumes "0 < height imageData"
  shows "extractColors True (Some imageData) maxColors 0 = None"
  using assms by (simp add: extractColors_def extractColorsWeightedGrid_def)

text \<open>
  Claim C6 as stated fails: \<open>extractColors\<close> checks neither parameter, and its only
  error is the one of its \<open>catch\<close> block.  On a loaded image of one red pixel it
  returns a result, the empty list, with \<open>maxColors = 0\<close> (cell size 1, so that red has
  weight 100) and also with the cell size \<open>-200\<close> (\<open>maxColors = 5\<close>); with the cell size
  0 it does not return.
\<close>

theorem invalid_parameters_counterexample:
  "wellFormed onePixelImage
   \<and> extractColors True (Some onePixelImage) 0 1 = Some (Inr [])
   \<and> extractColors True (Some onePixelImage) 5 (- 200) = Some (Inr [])
   \<and> extractColors True (Some onePixelImage) 5 0 = None"
proof -
  have "wellFormed onePixelImage" by code_simp
  moreover have "extractColors True (Some onePixelImage) 0 1 = Some (Inr [])"
    by (rule extract_nonpositive_maxColors) simp_all
  moreover have "extractColors True (Some onePixelImage) 5 (- 200) = Some (Inr [])"
    by (rule extract_negative_size) simp
  moreover have "extractColors True (Some onePixelImage) 5 0 = None"
    by (rule extract_zero_size) (simp add: onePixelImage_def)
  ultimately show ?thesis by simp
qed

text \<open>
  Claim C6, amended.  On a loaded image no call fails because of its parameters: with
  \<open>maxColors < 1\<close> (and a cell size other than 0) or with a negative cell size,
  \<open>extractColors\<close> returns the empty list; with the cell size 0, on an image that has
  at least one row, it does not return.
\<close>

theorem invalid_parameters_not_rejected:
  "((maxColors < 1 \<and> standardGridSize \<noteq> 0) \<or> standardGridSize < 0 \<longrightarrow>
      extractColors True (Some imageData) maxColors standardGridSize = Some (Inr []))
   \<and> (standardGridSize = 0 \<and> 0 < height imageData \<longrightarrow>
      extractColors True (Some imageData) maxColors standardGridSize = None)"
  using extract_nonpositive_maxColors [of maxColors standardGridSize imageData]
    extract_negative_size [of standardGridSize imageData maxColors]
    extract_zero_size [of imageData maxColors]
  by auto

theorem invalid_parameters_not_rejected_witness:
  "(- 1::int) < 1 \<and> (1::int) \<noteq> 0 \<and> extractColors True (Some redBlueImage) (- 1) 1 = Some (Inr [])
   \<and> (- 200::int) < 0 \<and> extractColors True (Some redBlueImage) 5 (- 200) = Some (Inr [])
   \<and> 0 < height redBlueImage \<and> extractColors True (Some redBlueImage) 5 0 = None"
proof -
  have rows: "0 < height redBlueImage" by (simp add: redBlueImage_def)
  from invalid_parameters_not_rejected [of "- 1" 1 redBlueImage]
    invalid_parameters_not_rejected [of 5 "- 200" redBlueImage]
    invalid_parameters_not_rejected [of 5 0 redBlueImage] rows
  show ?thesis by simp
qed

subsection \<open>Significance Selector\<close>

lemma sliceTo_nonneg: "0 \<le> e \<Longrightarrow> sliceTo xs e = take (nat e) xs"
  by (simp add: sliceTo_def)

text \<open>
  Claim C8.  The selector returns the first \<open>maxColors\<close> entries of frequency at least
  0.5, in their original order; these are all such entries when there are at most
  \<open>maxColors\<close> of them.  The result is a subsequence of the input: nothing is added,
  reordered or substituted.  This holds for every list when \<open>maxColors \<ge> 0\<close>, and for
  every \<open>maxColors\<close> when the list is the one the pipeline passes, the output of the
  merger with cap \<open>maxColors * 3\<close> (which is empty for a negative \<open>maxColors\<close>).
\<close>

theorem select_significant_prefix:
  assumes "0 \<le> maxColors \<or> colors = mergeSimilarColorsConservative results (maxColors * 3)"
  shows "selectDiverseColors colors maxColors
           = take (nat maxColors) (filter (\<lambda>c. frequency c \<ge> 0.5) colors)
       \<and> (int (length (filter (\<lambda>c. frequency c \<ge> 0.5) colors)) \<le> maxColors \<longrightarrow>
            selectDiverseColors colors maxColors = filter (\<lambda>c. frequency c \<ge> 0.5) colors)
       \<and> subseq (selectDiverseColors colors maxColors) colors"
proof -
  let ?sig = "filter (\<lambda>c. frequency c \<ge> 0.5) colors"
  have eq: "selectDiverseColors colors maxColors = take (nat maxColors) ?sig"
  proof (cases "0 \<le> maxColors")
    case True
    then show ?thesis by (auto simp: selectDiverseColors_def Let_def sliceTo_nonneg)
  next
    case False
    with assms have "colors = mergeSimilarColorsConservative results (maxColors * 3)" by simp
    moreover have "maxColors * 3 \<le> 0" using False by simp
    ultimately have "colors = []" by (simp add: merge_nonpositive_cap)
    then show ?thesis by (simp add: select_nil)
  qed
  have "subseq (take (nat maxColors) ?sig) ?sig"
    by (metis append_take_drop_id prefix_def prefix_imp_subseq)
  then have "subseq (take (nat maxColors) ?sig) colors"
    using subseq_filter_left subseq_order.order_trans by blast
  with eq show ?thesis by (auto simp: selectDiverseColors_def Let_def)
qed

theorem select_significant_prefix_witness:
  "(0::int) \<le> 2
   \<and> selectDiverseColors (mergeSimilarColorsConservative [entry 200 50 50 50 100] (- 1 * 3)) (- 1) = []
   \<and> selectDiverseColors
        [entry 200 50 50 50 60, entry 128 128 128 50 (3 / 10), entry 0 0 255 30 25, entry 0 0 0 0 (147 / 10)] 2
      = [entry 200 50 50 50 60, entry 0 0 255 30 25]
   \<and> selectDiverseColors
        [entry 200 50 50 50 60, entry 128 128 128 50 (3 / 10), entry 0 0 255 30 (397 / 10)] 2
      = [entry 200 50 50 50 60, entry 0 0 255 30 (397 / 10)]"
proof -
  have pos: "(0::int) \<le> 2 \<or> cs = mergeSimilarColorsConservative [] (2 * 3)" for cs by simp
  have pipeline: "(0::int) \<le> - 1
      \<or> mergeSimilarColorsConservative [entry 200 50 50 50 100] (- 1 * 3)
          = mergeSimilarColorsConservative [entry 200 50 50 50 100] (- 1 * 3)" by simp
  show ?thesis
    using select_significant_prefix [OF pos,
        of "[entry 200 50 50 50 60, entry 128 128 128 50 (3 / 10), entry 0 0 255 30 25, entry 0 0 0 0 (147 / 10)]"]
      select_significant_prefix [OF pos,
        of "[entry 200 50 50 50 60, entry 128 128 128 50 (3 / 10), entry 0 0 255 30 (397 / 10)]"]
      select_significant_prefix [OF pipeline]
    by (simp add: entry_def merge_nonpositive_cap)
qed

subsection \<open>Global Weight Aggregator: the weight accumulated for a colour\<close>

lemma weightOf_addWeight:
  "weightOf k (addWeight k' c w ws) = weightOf k ws + (if k' = k then w else 0)"
  by (induction ws) auto

lemma weightOf_fold_addWeight:
  "weightOf k (fold (\<lambda>(kh, c, n) ws. addWeight kh c (f n) ws) hist ws)
     = weightOf k ws + (\<Sum>(kh, c, n)\<leftarrow>hist. if kh = k then f n else 0)"
  by (induction hist arbitrary: ws) (auto simp: weightOf_addWeight)

lemma keys_countColor: "set (map fst (countColor k c hist)) = insert k (set (map fst hist))"
  by (induction k c hist rule: countColor.induct) (simp_all add: insert_commute)

lemma distinct_countColor:
  "distinct (map fst hist) \<Longrightarrow> distinct (map fst (countColor k c hist))"
proof (induction k c hist rule: countColor.induct)
  case (1 k c)
  then show ?case by simp
next
  case (2 k c k' c' n rest)
  show ?case
  proof (cases "k' = k")
    case True
    with 2 show ?thesis by simp
  next
    case False
    have "k' \<notin> set (map fst (countColor k c rest))"
      unfolding keys_countColor using False "2.prems" by simp
    with False 2 show ?thesis by simp
  qed
qed

lemma distinct_countPixel:
  "distinct (map fst hist) \<Longrightarrow> distinct (map fst (countPixel img y x hist))"
  by (simp add: countPixel_def Let_def distinct_countColor)

lemma distinct_fold_countPixel:
  "distinct (map fst hist) \<Longrightarrow> distinct (map fst (fold (countPixel img y) xs hist))"
  by (induction xs arbitrary: hist) (simp_all add: distinct_countPixel)

lemma distinct_fold_rows:
  "distinct (map fst hist) \<Longrightarrow>
     distinct (map fst (fold (\<lambda>y counts. fold (\<lambda>x counts'. countPixel img y x counts') xs counts) ys hist))"
  by (induction ys arbitrary: hist) (simp_all add: distinct_fold_countPixel)

lemma distinct_histogram: "distinct (map fst (countPixelsByColor img x0 y0 x1 y1))"
  unfolding countPixelsByColor_def by (rule distinct_fold_rows) simp

lemma sum_by_key:
  assumes "distinct (map fst hist)" and "f 0 = (0::real)"
  shows "(\<Sum>(kh, c, n)\<leftarrow>hist. if kh = k then f n else 0) = f (countOf k hist)"
  using assms(1)
proof (induction hist)
  case Nil
  then show ?case by (simp add: assms(2))
next
  case (Cons e hist)
  obtain kh c n where e: "e = (kh, c, n)" by (cases e)
  show ?case
  proof (cases "kh = k")
    case True
    with Cons.prems e have "k \<notin> set (map fst hist)" by simp
    then have "(\<Sum>(kh, c, n)\<leftarrow>hist. if kh = k then f n else 0) = 0"
      by (induction hist) auto
    with True e show ?thesis by simp
  next
    case False
    with Cons e show ?thesis by simp
  qed
qed

lemma weightOf_accumulateSection:
  "weightOf k (accumulateSection img A s ws)
     = weightOf k ws + (real (countOf k (histogramOf img s)) / sectionArea s * 100) * (sectionArea s / A)"
proof -
  let ?f = "\<lambda>n. (real n / sectionArea s * 100) * (sectionArea s / A)"
  have "weightOf k (accumulateSection img A s ws)
          = weightOf k ws + (\<Sum>(kh, c, n)\<leftarrow>histogramOf img s. if kh = k then ?f n else 0)"
    unfolding accumulateSection_def Let_def histogramOf_def
    by (rule weightOf_fold_addWeight)
  also have "(\<Sum>(kh, c, n)\<leftarrow>histogramOf img s. if kh = k then ?f n else 0) = ?f (countOf k (histogramOf img s))"
    by (rule sum_by_key) (simp_all add: histogramOf_def distinct_histogram)
  finally show ?thesis .
qed

lemma weightOf_fold_sections:
  "weightOf k (fold (accumulateSection img A) secs ws)
     = weightOf k ws
       + (\<Sum>s\<leftarrow>secs. (real (countOf k (histogramOf img s)) / sectionArea s * 100) * (sectionArea s / A))"
  by (induction secs arbitrary: ws) (simp_all add: weightOf_accumulateSection)

text \<open>
  Claim C1 as stated fails: the denominator of the local percentage is the geometric
  area of the section also when pixels were skipped.  In the \<open>2 \<times> 1\<close> image with one
  opaque red and one transparent pixel (cell size 2, one section of area 2, area weight
  \<open>2 / 4\<close>) red has count 1 and effective pixel count 1: the specification's formula
  gives \<open>1 / 1 * 100 * 0.5 = 50\<close>, the code accumulates \<open>1 / 2 * 100 * 0.5 = 25\<close>.
\<close>

theorem transparent_pixel_counterexample:
  "wellFormed halfTransparentImage
   \<and> calculateGridSections 2 1 2 = [\<lparr>startX = 0, startY = 0, endX = 2, endY = 1\<rparr>]
   \<and> histogramOf halfTransparentImage \<lparr>startX = 0, startY = 0, endX = 2, endY = 1\<rparr>
       = [(''#ff0000'', \<lparr>rgb_r = 255, rgb_g = 0, rgb_b = 0\<rparr>, 1)]
   \<and> specLocalPercentage (histogramOf halfTransparentImage \<lparr>startX = 0, startY = 0, endX = 2, endY = 1\<rparr>) 1
         * (sectionArea \<lparr>startX = 0, startY = 0, endX = 2, endY = 1\<rparr> / (2 * 2)) = 50
   \<and> globalColorWeights halfTransparentImage 2
       = [(''#ff0000'', \<lparr>rgb_r = 255, rgb_g = 0, rgb_b = 0\<rparr>, 25)]"
  by code_simp

text \<open>
  Claim C1, amended.  For every grid section the aggregator computes each colour's
  local percentage as the colour's pixel count divided by the section's geometric area
  (width times height, transparent pixels included), multiplied by 100, and multiplies
  it by the area weight (section area over \<open>S * S\<close>); the weight accumulated for a colour
  is the sum of these contributions over all sections.
\<close>

theorem local_percentage_over_section_area:
  assumes "0 < S"
  shows "weightOf k (globalColorWeights img S)
     = (\<Sum>s\<leftarrow>calculateGridSections (width img) (height img) S.
          (real (countOf k (histogramOf img s)) / sectionArea s * 100)
            * (sectionArea s / (real_of_int S * real_of_int S)))"
  unfolding globalColorWeights_def Let_def weightOf_fold_sections by simp

theorem local_percentage_over_section_area_witness:
  "(0::int) < 2
   \<and> weightOf ''#ff0000'' (globalColorWeights halfTransparentImage 2) = (1 / 2 * 100) * (2 / (2 * 2))"
proof -
  have pos: "(0::int) < 2" by simp
  have grid: "calculateGridSections (width halfTransparentImage) (height halfTransparentImage) 2
                = [\<lparr>startX = 0, startY = 0, endX = 2, endY = 1\<rparr>]"
    by code_simp
  have hist: "countOf ''#ff0000'' (histogramOf halfTransparentImage \<lparr>startX = 0, startY = 0, endX = 2, endY = Suc 0\<rparr>) = Suc 0"
    by code_simp
  show ?thesis
    using local_percentage_over_section_area [OF pos, of "''#ff0000''" halfTransparentImage]
    unfolding grid by (simp add: hist sectionArea_def)
qed

subsection \<open>Global Weight Aggregator: the sum of all weights\<close>

lemma totalWeight_addWeight: "totalWeight (addWeight k c w ws) = totalWeight ws + w"
  by (induction k c w ws rule: addWeight.induct) (simp_all add: totalWeight_def)

lemma nonneg_addWeight:
  "0 \<le> w \<Longrightarrow> list_all (\<lambda>(k, c, w). 0 \<le> w) ws \<Longrightarrow> list_all (\<lambda>(k, c, w). 0 \<le> w) (addWeight k c w ws)"
  by (induction k c w ws rule: addWeight.induct) simp_all

lemma totalWeight_fold_addWeight:
  "totalWeight (fold (\<lambda>(kh, c, n) ws. addWeight kh c (f n) ws) hist ws)
     = totalWeight ws + (\<Sum>(kh, c, n)\<leftarrow>hist. f n)"
  by (induction hist arbitrary: ws) (auto simp: totalWeight_addWeight)

lemma nonneg_fold_addWeight:
  "(\<And>n. 0 \<le> f n) \<Longrightarrow> list_all (\<lambda>(k, c, w). 0 \<le> w) ws \<Longrightarrow>
     list_all (\<lambda>(k, c, w). 0 \<le> w) (fold (\<lambda>(kh, c, n) ws. addWeight kh c (f n) ws) hist ws)"
  by (induction hist arbitrary: ws) (auto simp: nonneg_addWeight)

lemma effective_countColor: "effectivePixelCount (countColor k c hist) = effectivePixelCount hist + 1"
  by (induction k c hist rule: countColor.induct) (simp_all add: effectivePixelCount_def)

lemma effective_countPixel: "effectivePixelCount (countPixel img y x hist) \<le> effectivePixelCount hist + 1"
  by (simp add: countPixel_def Let_def effective_countColor)

lemma effective_fold_countPixel:
  "effectivePixelCount (fold (countPixel img y) xs hist) \<le> effectivePixelCount hist + length xs"
proof (induction xs arbitrary: hist)
  case Nil
  then show ?case by simp
next
  case (Cons x xs)
  have "effectivePixelCount (fold (countPixel img y) xs (countPixel img y x hist))
          \<le> effectivePixelCount (countPixel img y x hist) + length xs" by (rule Cons.IH)
  also have "\<dots> \<le> effectivePixelCount hist + 1 + length xs"
    using effective_countPixel [of img y x hist] by simp
  finally show ?case by simp
qed

lemma effective_fold_rows:
  "effectivePixelCount (fold (\<lambda>y counts. fold (\<lambda>x counts'. countPixel img y x counts') xs counts) ys hist)
     \<le> effectivePixelCount hist + length ys * length xs"
proof (induction ys arbitrary: hist)
  case Nil
  then show ?case by simp
next
  case (Cons y ys)
  let ?row = "fold (countPixel img y) xs hist"
  have "effectivePixelCount (fold (\<lambda>y counts. fold (\<lambda>x counts'. countPixel img y x counts') xs counts) ys ?row)
          \<le> effectivePixelCount ?row + length ys * length xs" by (rule Cons.IH)
  also have "\<dots> \<le> effectivePixelCount hist + length xs + length ys * length xs"
    using effective_fold_countPixel [of img y xs hist] by simp
  finally show ?case by simp
qed

lemma effective_histogram:
  "effectivePixelCount (countPixelsByColor img x0 y0 x1 y1) \<le> (y1 - y0) * (x1 - x0)"
  unfolding countPixelsByColor_def
  using effective_fold_rows [of img "[x0..<x1]" "[y0..<y1]" "[]"]
  by (simp add: effectivePixelCount_def)

lemma sum_counts: "(\<Sum>(kh, c, n)\<leftarrow>hist. real n * a) = real (effectivePixelCount hist) * a"
  by (induction hist) (auto simp: effectivePixelCount_def algebra_simps)

lemma totalWeight_accumulateSection:
  assumes "startX s \<le> endX s" and "startY s \<le> endY s" and "0 < A"
  shows "totalWeight (accumulateSection img A s ws) \<le> totalWeight ws + 100 * sectionArea s / A"
proof -
  let ?hist = "histogramOf img s"
  let ?f = "\<lambda>n. (real n / sectionArea s * 100) * (sectionArea s / A)"
  have area: "sectionArea s = real ((endY s - startY s) * (endX s - startX s))"
    using assms(1,2) by (simp add: sectionArea_def of_nat_diff)
  have eff: "real (effectivePixelCount ?hist) \<le> sectionArea s"
    unfolding area histogramOf_def using effective_histogram of_nat_le_iff by blast
  have "totalWeight (accumulateSection img A s ws) = totalWeight ws + (\<Sum>(kh, c, n)\<leftarrow>?hist. ?f n)"
    unfolding accumulateSection_def Let_def histogramOf_def
    by (rule totalWeight_fold_addWeight)
  also have "(\<Sum>(kh, c, n)\<leftarrow>?hist. ?f n)
      = (\<Sum>(kh, c, n)\<leftarrow>?hist. real n * (100 / sectionArea s * (sectionArea s / A)))"
    by (simp add: algebra_simps)
  also have "\<dots> = real (effectivePixelCount ?hist) * (100 / sectionArea s * (sectionArea s / A))"
    by (rule sum_counts)
  also have "\<dots> \<le> 100 * sectionArea s / A"
  proof (cases "sectionArea s = 0")
    case True
    then show ?thesis by simp
  next
    case False
    then have "real (effectivePixelCount ?hist) * (100 / sectionArea s * (sectionArea s / A))
                 = real (effectivePixelCount ?hist) * 100 / A" by simp
    also have "\<dots> \<le> sectionArea s * 100 / A"
      using eff assms(3) by (intro divide_right_mono mult_right_mono) simp_all
    finally show ?thesis by (simp add: mult.commute)
  qed
  finally show ?thesis by simp
qed

lemma nonneg_accumulateSection:
  assumes "startX s \<le> endX s" and "startY s \<le> endY s" and "0 < A"
    and "list_all (\<lambda>(k, c, w). 0 \<le> w) ws"
  shows "list_all (\<lambda>(k, c, w). 0 \<le> w) (accumulateSection img A s ws)"
proof -
  have "0 \<le> sectionArea s" using assms(1,2) by (simp add: sectionArea_def)
  then have "0 \<le> (real n / sectionArea s * 100) * (sectionArea s / A)" for n
    using assms(3) by simp
  then show ?thesis
    unfolding accumulateSection_def Let_def
    by (intro nonneg_fold_addWeight assms(4))
qed

subsection \<open>Images much smaller than one cell\<close>

lemma side_telescope:
  fixes S n :: nat
  assumes "0 < S"
  shows "(\<Sum>c\<leftarrow>[0..<cellCount n S]. real (min ((c + 1) * S) n) - real (c * S)) = real n"
proof -
  let ?f = "\<lambda>c. real (min (c * S) n)"
  have "(\<Sum>c\<leftarrow>[0..<cellCount n S]. real (min ((c + 1) * S) n) - real (c * S))
          = (\<Sum>c\<leftarrow>[0..<cellCount n S]. ?f (Suc c) - ?f c)"
  proof (intro arg_cong [where f = sum_list] map_cong refl)
    fix c assume "c \<in> set [0..<cellCount n S]"
    then have "c * S < n" by (simp add: cellCount_iff [OF assms])
    then show "real (min ((c + 1) * S) n) - real (c * S) = ?f (Suc c) - ?f c" by simp
  qed
  also have "\<dots> = (\<Sum>c<cellCount n S. ?f (Suc c) - ?f c)"
    by (simp add: interv_sum_list_conv_sum_set_nat atLeast0LessThan)
  also have "\<dots> = ?f (cellCount n S) - ?f 0"
    by (rule sum_lessThan_telescope)
  also have "\<dots> = real n"
  proof -
    have "\<not> cellCount n S * S < n" using cellCount_iff [OF assms, of "cellCount n S" n] by simp
    then show ?thesis by simp
  qed
  finally show ?thesis .
qed

lemma sectionArea_cell:
  "sectionArea (cell W H S c r)
     = (real (min ((c + 1) * S) W) - real (c * S)) * (real (min ((r + 1) * S) H) - real (r * S))"
  by (simp add: sectionArea_def cell_def)

lemma sum_list_rows:
  "(\<Sum>s\<leftarrow>concat (map (\<lambda>r. map (\<lambda>c. g c r) cs) rs). (f s :: real))
     = (\<Sum>r\<leftarrow>rs. \<Sum>c\<leftarrow>cs. f (g c r))"
  by (induction rs) (simp_all add: comp_def)

lemma grid_area:
  assumes "0 < S"
  shows "(\<Sum>s\<leftarrow>gridOfPositiveSize W H S. sectionArea s) = real W * real H"
proof -
  let ?w = "\<lambda>c. real (min ((c + 1) * S) W) - real (c * S)"
  let ?h = "\<lambda>r. real (min ((r + 1) * S) H) - real (r * S)"
  have "(\<Sum>s\<leftarrow>gridOfPositiveSize W H S. sectionArea s)
          = (\<Sum>r\<leftarrow>[0..<cellCount H S]. \<Sum>c\<leftarrow>[0..<cellCount W S]. ?w c * ?h r)"
    unfolding grid_as_cells [OF assms] sum_list_rows sectionArea_cell ..
  also have "\<dots> = (\<Sum>r\<leftarrow>[0..<cellCount H S]. real W * ?h r)"
    unfolding sum_list_mult_const side_telescope [OF assms] ..
  also have "\<dots> = real W * (\<Sum>r\<leftarrow>[0..<cellCount H S]. ?h r)"
    by (rule sum_list_const_mult)
  also have "\<dots> = real W * real H"
    unfolding side_telescope [OF assms] ..
  finally show ?thesis .
qed

lemma grid_sections_ordered:
  assumes "0 < S" and "s \<in> set (gridOfPositiveSize W H S)"
  shows "startX s \<le> endX s \<and> startY s \<le> endY s"
proof -
  from assms(2) obtain r c where s: "s = cell W H S c r"
    and c: "c < cellCount W S" and r: "r < cellCount H S"
    unfolding grid_set [OF assms(1)] by auto
  from c r have "c * S < W" "r * S < H" by (simp_all add: cellCount_iff [OF assms(1)])
  then show ?thesis by (simp add: s cell_def)
qed

lemma totalWeight_fold_sections:
  assumes "0 < A" and "\<forall>s\<in>set secs. startX s \<le> endX s \<and> startY s \<le> endY s"
    and "list_all (\<lambda>(k, c, w). 0 \<le> w) ws"
  shows "totalWeight (fold (accumulateSection img A) secs ws)
           \<le> totalWeight ws + 100 * (\<Sum>s\<leftarrow>secs. sectionArea s) / A
         \<and> list_all (\<lambda>(k, c, w). 0 \<le> w) (fold (accumulateSection img A) secs ws)"
  using assms(2,3)
proof (induction secs arbitrary: ws)
  case Nil
  then show ?case by simp
next
  case (Cons s secs)
  let ?ws = "accumulateSection img A s ws"
  from Cons.prems have s: "startX s \<le> endX s" "startY s \<le> endY s" by simp_all
  have nn: "list_all (\<lambda>(k, c, w). 0 \<le> w) ?ws"
    using s assms(1) Cons.prems(2) by (rule nonneg_accumulateSection)
  have step: "totalWeight ?ws \<le> totalWeight ws + 100 * sectionArea s / A"
    using s assms(1) by (rule totalWeight_accumulateSection)
  from Cons.IH [OF _ nn] Cons.prems(1)
  have ih: "totalWeight (fold (accumulateSection img A) secs ?ws)
              \<le> totalWeight ?ws + 100 * (\<Sum>s\<leftarrow>secs. sectionArea s) / A"
    and nn': "list_all (\<lambda>(k, c, w). 0 \<le> w) (fold (accumulateSection img A) secs ?ws)"
    by simp_all
  from ih step have "totalWeight (fold (accumulateSection img A) secs ?ws)
      \<le> totalWeight ws + (100 * sectionArea s / A + 100 * (\<Sum>s\<leftarrow>secs. sectionArea s) / A)"
    by linarith
  then show ?case using nn' by (simp add: add_divide_distrib distrib_left)
qed

lemma totalWeight_nonneg:
  "list_all (\<lambda>(k, c, w). 0 \<le> w) ws \<Longrightarrow> 0 \<le> totalWeight ws"
  by (induction ws) (auto simp: totalWeight_def)

lemma weight_le_total:
  "list_all (\<lambda>(k, c, w). 0 \<le> w) ws \<Longrightarrow> (k, c, w) \<in> set ws \<Longrightarrow> w \<le> totalWeight ws"
proof (induction ws)
  case Nil
  then show ?case by simp
next
  case (Cons e ws)
  obtain k' c' w' where e: "e = (k', c', w')" by (cases e)
  from Cons.prems(1) e have w': "0 \<le> w'" and nn: "list_all (\<lambda>(k, c, w). 0 \<le> w) ws" by simp_all
  have tot: "totalWeight (e # ws) = w' + totalWeight ws" by (simp add: e totalWeight_def)
  show ?case
  proof (cases "(k, c, w) = e")
    case True
    with e tot totalWeight_nonneg [OF nn] show ?thesis by simp
  next
    case False
    with Cons.prems(2) have "(k, c, w) \<in> set ws" by simp
    with Cons.IH nn have "w \<le> totalWeight ws" by simp
    with tot w' show ?thesis by simp
  qed
qed

lemma global_weights_bound:
  assumes "0 < S"
  shows "list_all (\<lambda>(k, c, w). 0 \<le> w
             \<and> w \<le> 100 * (real (width img) * real (height img)) / (real_of_int S * real_of_int S))
           (globalColorWeights img S)"
proof -
  let ?A = "real_of_int S * real_of_int S"
  let ?secs = "gridOfPositiveSize (width img) (height img) (nat S)"
  have pos: "0 < nat S" using assms by simp
  have A: "0 < ?A" using assms by simp
  have weights: "globalColorWeights img S = fold (accumulateSection img ?A) ?secs []"
    by (simp add: globalColorWeights_def Let_def grid_positive [OF assms])
  have ord: "\<forall>s\<in>set ?secs. startX s \<le> endX s \<and> startY s \<le> endY s"
    using grid_sections_ordered [OF pos] by blast
  from totalWeight_fold_sections [OF A ord, of "[]" img]
  have tot: "totalWeight (globalColorWeights img S) \<le> 100 * (real (width img) * real (height img)) / ?A"
    and nn: "list_all (\<lambda>(k, c, w). 0 \<le> w) (globalColorWeights img S)"
    by (simp_all add: weights grid_area [OF pos] totalWeight_def)
  show ?thesis
    unfolding list_all_iff
  proof (intro ballI)
    fix e assume e: "e \<in> set (globalColorWeights img S)"
    obtain k c w where kcw: "e = (k, c, w)" by (cases e)
    from weight_le_total [OF nn] e kcw have "w \<le> totalWeight (globalColorWeights img S)" by simp
    moreover from nn e kcw have "0 \<le> w" by (auto simp: list_all_iff)
    ultimately show "case e of (k, c, w) \<Rightarrow>
        0 \<le> w \<and> w \<le> 100 * (real (width img) * real (height img)) / ?A"
      using tot by (simp add: kcw)
  qed
qed

lemma normalizedResults_none:
  assumes "list_all (\<lambda>(k, c, w). w < 0.1) ws"
  shows "normalizedResults ws = []"
proof -
  have "fold (\<lambda>(colorHex, c, w) results.
               if w \<ge> 0.1 then push results (mk colorHex c w) else results) ws acc = acc" for mk and acc :: "ColorResult list"
    using assms by (induction ws arbitrary: acc) auto
  then show ?thesis unfolding normalizedResults_def Let_def .
qed

lemma sort_nil: "sortByFrequency [] = []"
  by (simp add: sortByFrequency_def)

lemma merge_nil: "mergeSimilarColorsConservative [] M = []"
  by (simp add: mergeSimilarColorsConservative_def mergeLoop_stop)

lemma extract_no_results:
  assumes "normalizedResults (globalColorWeights img S) = []" and "S \<noteq> 0"
  shows "extractColors True (Some img) maxColors S = Some (Inr [])"
  using assms(2)
  by (simp add: extractColors_def extractColorsWeightedGrid_def Let_def assms(1) sort_nil merge_nil select_nil)

text \<open>
  Claim C10.  For every image (fully opaque ones included) whose pixel area is below
  \<open>standardGridSize\<^sup>2 / 1000\<close>, every colour's accumulated weight is below the cutoff
  0.1, and the extraction returns the empty list: the weights of all colours together
  are at most \<open>100 * area / standardGridSize\<^sup>2 < 0.1\<close>.
\<close>

theorem tiny_image_empty:
  assumes "0 < S" and "real (width img) * real (height img) < real_of_int S * real_of_int S / 1000"
  shows "list_all (\<lambda>(k, c, w). w < 0.1) (globalColorWeights img S)
       \<and> extractColors True (Some img) maxColors S = Some (Inr [])"
proof -
  have "0 < real_of_int S * real_of_int S" using assms(1) by simp
  then have "100 * (real (width img) * real (height img)) / (real_of_int S * real_of_int S) < 0.1"
    using assms(2) by (simp add: field_simps)
  with global_weights_bound [OF assms(1), of img]
  have small: "list_all (\<lambda>(k, c, w). w < 0.1) (globalColorWeights img S)"
    by (auto simp: list_all_iff)
  moreover have "S \<noteq> 0" using assms(1) by simp
  ultimately show ?thesis using normalizedResults_none extract_no_results by blast
qed

theorem tiny_image_empty_witness:
  "(0::int) < 200 \<and> wellFormed solidRedImage
   \<and> real (width solidRedImage) * real (height solidRedImage) < real_of_int 200 * real_of_int 200 / 1000
   \<and> globalColorWeights solidRedImage 200 = [(''#ff0000'', \<lparr>rgb_r = 255, rgb_g = 0, rgb_b = 0\<rparr>, 9 / 100)]
   \<and> extractColors True (Some solidRedImage) 5 200 = Some (Inr [])"
proof -
  have pos: "(0::int) < 200" by simp
  have area: "real (width solidRedImage) * real (height solidRedImage) < real_of_int 200 * real_of_int 200 / 1000"
    by (simp add: solidRedImage_def)
  have wf: "wellFormed solidRedImage" by code_simp
  have weights: "globalColorWeights solidRedImage 200
                   = [(''#ff0000'', \<lparr>rgb_r = 255, rgb_g = 0, rgb_b = 0\<rparr>, 9 / 100)]"
    by code_simp
  from tiny_image_empty [OF pos area, of 5] pos area wf weights show ?thesis by blast
qed

subsection \<open>Conservative Merger: the loop computes \<open>mergeGroups\<close>\<close>

text \<open>
  The scan over the later colours in closed form: it marks exactly the unused indices
  whose colour is closer to the base than the threshold, and adds their terms to the
  totals.
\<close>

lemma mergeCompare_fold:
  assumes "distinct js"
  shows "fold (mergeCompare cs baseColor thr) js st =
     (let F = filter (\<lambda>j. j \<notin> used st \<and> labDistanceCIE94 (lab baseColor) (lab (cs ! j)) < thr) js
      in \<lparr>used = used st \<union> set F,
          totalFrequency = totalFrequency st + (\<Sum>j\<leftarrow>F. frequency (cs ! j)),
          totalR = totalR st + (\<Sum>j\<leftarrow>F. real_of_int (rgb_r (rgb (cs ! j))) * frequency (cs ! j)),
          totalG = totalG st + (\<Sum>j\<leftarrow>F. real_of_int (rgb_g (rgb (cs ! j))) * frequency (cs ! j)),
          totalB = totalB st + (\<Sum>j\<leftarrow>F. real_of_int (rgb_b (rgb (cs ! j))) * frequency (cs ! j))\<rparr>)"
  using assms
proof (induction js arbitrary: st)
  case Nil
  then show ?case by simp
next
  case (Cons j js)
  let ?close = "\<lambda>j. labDistanceCIE94 (lab baseColor) (lab (cs ! j)) < thr"
  from Cons.prems have dj: "distinct js" and nj: "j \<notin> set js" by simp_all
  note IH = Cons.IH [OF dj]
  show ?case
  proof (cases "j \<notin> used st \<and> ?close j")
    case False
    then have "mergeCompare cs baseColor thr j st = st"
      by (auto simp: mergeCompare_def Let_def)
    with False IH [of st] show ?thesis by (auto simp: Let_def)
  next
    case True
    let ?st = "mergeCompare cs baseColor thr j st"
    have st: "?st = \<lparr>used = insert j (used st),
                    totalFrequency = totalFrequency st + frequency (cs ! j),
                    totalR = totalR st + real_of_int (rgb_r (rgb (cs ! j))) * frequency (cs ! j),
                    totalG = totalG st + real_of_int (rgb_g (rgb (cs ! j))) * frequency (cs ! j),
                    totalB = totalB st + real_of_int (rgb_b (rgb (cs ! j))) * frequency (cs ! j)\<rparr>"
      using True by (simp add: mergeCompare_def Let_def)
    have flt: "filter (\<lambda>k. k \<notin> used ?st \<and> ?close k) js = filter (\<lambda>k. k \<notin> used st \<and> ?close k) js"
      using nj by (intro filter_cong refl) (auto simp: st)
    show ?thesis
      using True by (simp add: IH [of ?st] flt Let_def) (simp add: st add.assoc)
  qed
qed

lemma mergeGroups_full:
  "\<not> int (length merged) < M \<Longrightarrow> mergeGroups M merged xs = merged"
  by (cases xs) simp_all

lemma remaining_skip: "i < length cs \<Longrightarrow> i \<in> u \<Longrightarrow> remaining cs i u = remaining cs (i + 1) u"
  by (simp add: remaining_def upt_conv_Cons)

lemma remaining_base: "i < length cs \<Longrightarrow> i \<notin> u \<Longrightarrow> remaining cs i u = cs ! i # remaining cs (i + 1) u"
  by (simp add: remaining_def upt_conv_Cons)

lemma remaining_end: "\<not> i < length cs \<Longrightarrow> remaining cs i u = []"
  by (simp add: remaining_def)


lemma mergeLoop_groups:
  "mergeLoop cs M i u merged = mergeGroups M merged (remaining cs i u)"
proof (induction cs M i u merged rule: mergeLoop.induct)
  case (1 colors maxColors i usedSet merged)
  show ?case
  proof (cases "i < length colors \<and> int (length merged) < maxColors")
    case False
    then have "mergeLoop colors maxColors i usedSet merged = merged" by (rule mergeLoop_stop)
    moreover have "mergeGroups maxColors merged (remaining colors i usedSet) = merged"
    proof (cases "int (length merged) < maxColors")
      case True
      with False have "\<not> i < length colors" by simp
      then show ?thesis by (simp add: remaining_end)
    next
      case False
      then show ?thesis by (rule mergeGroups_full)
    qed
    ultimately show ?thesis by simp
  next
    case True
    then have i: "i < length colors" and len: "int (length merged) < maxColors" by simp_all
    show ?thesis
    proof (cases "i \<in> usedSet")
      case u: True
      from 1(1) [OF True u] show ?thesis
        by (simp add: mergeLoop_skip [OF i len u] remaining_skip [OF i u])
    next
      case u: False
      let ?base = "colors ! i"
      let ?thr = "if isRed (rgb ?base) then 1.5 else (3::real)"
      let ?init = "\<lparr>used = usedSet,
                     totalFrequency = frequency ?base,
                     totalR = real_of_int (rgb_r (rgb ?base)) * frequency ?base,
                     totalG = real_of_int (rgb_g (rgb ?base)) * frequency ?base,
                     totalB = real_of_int (rgb_b (rgb ?base)) * frequency ?base\<rparr>"
      let ?st = "fold (mergeCompare colors ?base ?thr) [i + 1..<length colors] ?init"
      let ?F = "filter (\<lambda>j. j \<notin> usedSet \<and> mergesInto ?base (colors ! j)) [i + 1..<length colors]"
      let ?rest = "remaining colors (i + 1) usedSet"
      have st: "?st = \<lparr>used = usedSet \<union> set ?F,
          totalFrequency = frequency ?base + (\<Sum>j\<leftarrow>?F. frequency (colors ! j)),
          totalR = real_of_int (rgb_r (rgb ?base)) * frequency ?base
                     + (\<Sum>j\<leftarrow>?F. real_of_int (rgb_r (rgb (colors ! j))) * frequency (colors ! j)),
          totalG = real_of_int (rgb_g (rgb ?base)) * frequency ?base
                     + (\<Sum>j\<leftarrow>?F. real_of_int (rgb_g (rgb (colors ! j))) * frequency (colors ! j)),
          totalB = real_of_int (rgb_b (rgb ?base)) * frequency ?base
                     + (\<Sum>j\<leftarrow>?F. real_of_int (rgb_b (rgb (colors ! j))) * frequency (colors ! j))\<rparr>"
        by (subst mergeCompare_fold) (simp_all add: Let_def mergesInto_def)
      have close: "map (nth colors) ?F = filter (mergesInto ?base) ?rest"
        by (simp add: remaining_def filter_map comp_def conj_commute)
      have sums: "(\<Sum>j\<leftarrow>?F. g (colors ! j)) = (\<Sum>c\<leftarrow>filter (mergesInto ?base) ?rest. g c)"
        for g :: "ColorResult \<Rightarrow> real"
        unfolding close [symmetric] by (simp add: comp_def)
      have entry: "averagedEntry (totalFrequency ?st) (totalR ?st) (totalG ?st) (totalB ?st)
                     = groupEntry ?base (filter (mergesInto ?base) ?rest)"
        unfolding st groupEntry_def
        using sums [of frequency]
          sums [of "\<lambda>c. real_of_int (rgb_r (rgb c)) * frequency c"]
          sums [of "\<lambda>c. real_of_int (rgb_g (rgb c)) * frequency c"]
          sums [of "\<lambda>c. real_of_int (rgb_b (rgb c)) * frequency c"]
        by simp
      have far: "remaining colors (i + 1) (insert i (used ?st))
                   = filter (\<lambda>c. \<not> mergesInto ?base c) ?rest"
        unfolding st remaining_def
        by (simp add: filter_map comp_def) (intro arg_cong [where f = "map (nth colors)"] filter_cong refl, auto)
      have "mergeLoop colors maxColors i usedSet merged
              = mergeLoop colors maxColors (i + 1) (insert i (used ?st))
                  (push merged (averagedEntry (totalFrequency ?st) (totalR ?st) (totalG ?st) (totalB ?st)))"
        by (simp add: mergeLoop_base [OF i len u] Let_def)
      also have "\<dots> = mergeGroups maxColors
                  (push merged (averagedEntry (totalFrequency ?st) (totalR ?st) (totalG ?st) (totalB ?st)))
                  (remaining colors (i + 1) (insert i (used ?st)))"
        by (rule 1(2) [OF True u refl refl refl refl])
      also have "\<dots> = mergeGroups maxColors merged (remaining colors i usedSet)"
        unfolding entry far remaining_base [OF i u] using len by (simp add: push_def)
      finally show ?thesis .
    qed
  qed
qed

lemma merge_as_groups:
  "mergeSimilarColorsConservative cs M = (if int (length cs) \<le> M then cs else mergeGroups M [] cs)"
  by (simp add: mergeSimilarColorsConservative_def mergeLoop_groups remaining_def map_nth)

subsection \<open>Conservative Merger: the length guard and the cap\<close>

lemma distance_entry:
  "labDistanceCIE94 (lab (entry r1 g1 b1 l1 f1)) (lab (entry r2 g2 b2 l2 f2)) = \<bar>l1 - l2\<bar>"
  by (simp add: labDistanceCIE94_def entry_def Let_def)

lemma mergesInto_entry:
  "mergesInto (entry r1 g1 b1 l1 f1) (entry r2 g2 b2 l2 f2)
     \<longleftrightarrow> \<bar>l1 - l2\<bar> < (if r1 > 180 \<and> g1 < 100 \<and> b1 < 100 then 1.5 else 3)"
  unfolding mergesInto_def distance_entry by (simp add: entry_def isRed_def)

lemma frequency_groupEntry:
  "frequency (groupEntry baseColor grp) = frequency baseColor + (\<Sum>c\<leftarrow>grp. frequency c)"
  by (simp add: groupEntry_def averagedEntry_def Let_def)




text \<open>
  In a list longer than the cap neither half of the claim holds in general.  All
  numbers of the two examples are integers or halves and all LAB values lie on the
  lightness axis, so that double arithmetic computes the same distances and sums.
  In the first list three colours far from each other fill the cap \<open>M = 3\<close>, and the
  two grays behind them, 2 \<open>\<Delta>E\<close> apart, are dropped, not merged.  In the second list
  two reds that are 3 \<open>\<Delta>E\<close> apart both lie 1.5 \<open>\<Delta>E\<close> from an earlier base that is not
  red, whose threshold is 3, and are merged into its entry.
\<close>

lemma longer_list_examples:
  "map frequency (mergeSimilarColorsConservative
      [entry 0 0 255 10 40, entry 0 200 0 30 30, entry 250 250 0 50 20,
       entry 128 128 128 80 6, entry 130 130 130 78 4] 3) = [40, 30, 20]"
  "labDistanceCIE94 (lab (entry 210 50 50 (103 / 2) 30)) (lab (entry 190 50 50 (97 / 2) 20)) = 3"
  "map frequency (mergeSimilarColorsConservative
      [entry 200 120 90 50 40, entry 210 50 50 (103 / 2) 30, entry 190 50 50 (97 / 2) 20,
       entry 0 0 255 90 10] 3) = [90, 10]"
  by (simp_all add: merge_as_groups mergesInto_entry frequency_groupEntry distance_entry)
    (simp_all add: entry_def)

end
